theory Spec2Isabelle
  imports Complex_Main "HOL-Library.AList"
begin

section \<open>JavaScript numbers\<close>

text \<open>
  The source computes with JavaScript numbers: the doubles, with two zeros, two
  infinities and \<^verbatim>\<open>NaN\<close>. A finite number is modelled by the real it stands for
  (\<open>Fin 0\<close> is +0, \<open>NegZero\<close> is -0), so rounding is left out: a finite result is the
  exact one. Overflow is not left out: an exact result beyond the largest double is an
  infinity (the half step above it that still rounds down is counted as overflow). The
  operations follow IEEE 754 on the special values.
\<close>

datatype jsnum = Fin real | NegZero | PInf | NInf | NaN

text \<open>The largest finite double, (2 - 2^-52) 2^1023.\<close>

definition max_double :: real where
  "max_double = (2 ^ 53 - 1) * 2 ^ 971"

text \<open>The number that stands for an exact result that is not zero.\<close>

definition js_round :: "real \<Rightarrow> jsnum" where
  "js_round r = (if max_double < r then PInf else if r < - max_double then NInf else Fin r)"

text \<open>The value of a finite number, and the sign of any number but \<^verbatim>\<open>NaN\<close>.\<close>

fun finite_val :: "jsnum \<Rightarrow> real option" where
  "finite_val (Fin r) = Some r"
| "finite_val NegZero = Some 0"
| "finite_val _ = None"

fun sign_bit :: "jsnum \<Rightarrow> bool" where
  "sign_bit (Fin r) = (r < 0)"
| "sign_bit NegZero = True"
| "sign_bit NInf = True"
| "sign_bit _ = False"

definition signed_zero :: "bool \<Rightarrow> jsnum" where
  "signed_zero neg = (if neg then NegZero else Fin 0)"

definition signed_inf :: "bool \<Rightarrow> jsnum" where
  "signed_inf neg = (if neg then NInf else PInf)"

text \<open>
  The number for an exact result \<open>r\<close>; \<open>neg\<close> is the sign that a zero result takes.
\<close>

definition js_result :: "real \<Rightarrow> bool \<Rightarrow> jsnum" where
  "js_result r neg = (if r = 0 then signed_zero neg else js_round r)"

text \<open>Unary minus, then \<^verbatim>\<open>*\<close>, \<^verbatim>\<open>/\<close>, \<^verbatim>\<open>+\<close> and \<^verbatim>\<open>-\<close> (which is \<open>a + (-b)\<close>).\<close>

fun js_neg :: "jsnum \<Rightarrow> jsnum" where
  "js_neg (Fin r) = (if r = 0 then NegZero else Fin (- r))"
| "js_neg NegZero = Fin 0"
| "js_neg PInf = NInf"
| "js_neg NInf = PInf"
| "js_neg NaN = NaN"

definition js_mul :: "jsnum \<Rightarrow> jsnum \<Rightarrow> jsnum" where
  "js_mul a b =
     (if a = NaN \<or> b = NaN then NaN
      else (let neg = (sign_bit a \<noteq> sign_bit b) in
            case (finite_val a, finite_val b) of
              (Some x, Some y) \<Rightarrow> js_result (x * y) neg
            | (Some x, None) \<Rightarrow> if x = 0 then NaN else signed_inf neg
            | (None, Some y) \<Rightarrow> if y = 0 then NaN else signed_inf neg
            | (None, None) \<Rightarrow> signed_inf neg))"

definition js_div :: "jsnum \<Rightarrow> jsnum \<Rightarrow> jsnum" where
  "js_div a b =
     (if a = NaN \<or> b = NaN then NaN
      else (let neg = (sign_bit a \<noteq> sign_bit b) in
            case (finite_val a, finite_val b) of
              (Some x, Some y) \<Rightarrow>
                if y = 0 then (if x = 0 then NaN else signed_inf neg)
                else js_result (x / y) neg
            | (Some x, None) \<Rightarrow> signed_zero neg
            | (None, Some y) \<Rightarrow> signed_inf neg
            | (None, None) \<Rightarrow> NaN))"

definition js_add :: "jsnum \<Rightarrow> jsnum \<Rightarrow> jsnum" where
  "js_add a b =
     (if a = NaN \<or> b = NaN then NaN
      else case (finite_val a, finite_val b) of
             (Some x, Some y) \<Rightarrow>
               if x + y = 0 then signed_zero (a = NegZero \<and> b = NegZero)
               else js_round (x + y)
           | (Some x, None) \<Rightarrow> b
           | (None, Some y) \<Rightarrow> a
           | (None, None) \<Rightarrow> if a = b then a else NaN)"

definition js_sub :: "jsnum \<Rightarrow> jsnum \<Rightarrow> jsnum" where
  "js_sub a b = js_add a (js_neg b)"

text \<open>
  The order that \<^verbatim>\<open>Math.min\<close> and \<^verbatim>\<open>Math.max\<close> use on numbers other than \<^verbatim>\<open>NaN\<close>
  (-0 is below +0); either is \<^verbatim>\<open>NaN\<close> when an argument is.
\<close>

definition js_lt :: "jsnum \<Rightarrow> jsnum \<Rightarrow> bool" where
  "js_lt a b =
     (case (finite_val a, finite_val b) of
        (Some x, Some y) \<Rightarrow> x < y \<or> (x = y \<and> a = NegZero \<and> b \<noteq> NegZero)
      | (Some x, None) \<Rightarrow> b = PInf
      | (None, Some y) \<Rightarrow> a = NInf
      | (None, None) \<Rightarrow> a = NInf \<and> b = PInf)"

definition js_min :: "jsnum \<Rightarrow> jsnum \<Rightarrow> jsnum" where
  "js_min a b = (if a = NaN \<or> b = NaN then NaN else if js_lt b a then b else a)"

definition js_max :: "jsnum \<Rightarrow> jsnum \<Rightarrow> jsnum" where
  "js_max a b = (if a = NaN \<or> b = NaN then NaN else if js_lt a b then b else a)"

text \<open>\<^verbatim>\<open>Math.pow(a, 3)\<close>.\<close>

definition js_cube :: "jsnum \<Rightarrow> jsnum" where
  "js_cube a = js_mul (js_mul a a) a"

lemma max_double_ge: "1000000 \<le> max_double"
  by (simp add: max_double_def)

lemma js_round_small: "\<bar>r\<bar> \<le> 1000000 \<Longrightarrow> js_round r = Fin r"
  using max_double_ge by (auto simp add: js_round_def)

lemma js_round_in_range: "\<bar>r\<bar> \<le> max_double \<Longrightarrow> js_round r = Fin r"
  by (auto simp add: js_round_def)

lemma js_round_cases: "js_round r = Fin r \<or> js_round r = PInf \<or> js_round r = NInf"
  by (simp add: js_round_def)

text \<open>
  On finite operands whose exact result is within the doubles, the operations are
  those of the reals.
\<close>

lemma finite_val_not_NaN: "finite_val a = Some x \<Longrightarrow> a \<noteq> NaN"
  by (cases a) simp_all

lemma finite_val_mul:
  assumes "finite_val a = Some x" and "finite_val b = Some y" and "\<bar>x * y\<bar> \<le> max_double"
  shows "finite_val (js_mul a b) = Some (x * y)"
  using assms finite_val_not_NaN [of a x] finite_val_not_NaN [of b y]
  by (auto simp add: js_mul_def js_result_def signed_zero_def js_round_in_range)

lemma finite_val_div:
  assumes "finite_val a = Some x" and "finite_val b = Some y" and "y \<noteq> 0"
    and "\<bar>x / y\<bar> \<le> max_double"
  shows "finite_val (js_div a b) = Some (x / y)"
  using assms finite_val_not_NaN [of a x] finite_val_not_NaN [of b y]
  by (auto simp add: js_div_def js_result_def signed_zero_def js_round_in_range)

lemma finite_val_neg: "finite_val a = Some x \<Longrightarrow> finite_val (js_neg a) = Some (- x)"
  by (cases a) auto

lemma finite_val_add:
  assumes "finite_val a = Some x" and "finite_val b = Some y" and "\<bar>x + y\<bar> \<le> max_double"
  shows "finite_val (js_add a b) = Some (x + y)"
  using assms finite_val_not_NaN [of a x] finite_val_not_NaN [of b y]
  by (auto simp add: js_add_def signed_zero_def js_round_in_range)

lemma finite_val_sub:
  assumes "finite_val a = Some x" and "finite_val b = Some y" and "\<bar>x - y\<bar> \<le> max_double"
  shows "finite_val (js_sub a b) = Some (x - y)"
  unfolding js_sub_def using finite_val_add [OF assms(1) finite_val_neg [OF assms(2)]] assms(3)
  by simp

lemma finite_val_min:
  assumes "finite_val a = Some x" and "finite_val b = Some y"
  shows "finite_val (js_min a b) = Some (min x y)"
  using assms finite_val_not_NaN [of a x] finite_val_not_NaN [of b y]
  by (auto simp add: js_min_def js_lt_def)

section \<open>ViewportManager\<close>

text \<open>
  The class on all numbers. Every field and every argument is a number of JavaScript,
  so a caller may pass \<^verbatim>\<open>NaN\<close>, an infinity or a zero anywhere.
\<close>

record Viewport_js =
  js_x :: jsnum
  js_y :: jsnum
  js_zoom :: jsnum

record Point_js =
  jp_x :: jsnum
  jp_y :: jsnum

record Bounds_js =
  jb_x :: jsnum
  jb_y :: jsnum
  jb_width :: jsnum
  jb_height :: jsnum

record ViewportManager_js =
  js_viewport :: Viewport_js
  js_canvas_width :: jsnum
  js_canvas_height :: jsnum

definition new_ViewportManager_js :: "jsnum \<Rightarrow> jsnum \<Rightarrow> ViewportManager_js" where
  "new_ViewportManager_js w h =
     \<lparr>js_viewport = \<lparr>js_x = Fin 0, js_y = Fin 0, js_zoom = Fin 1\<rparr>,
      js_canvas_width = w, js_canvas_height = h\<rparr>"

definition screenToWorld_js :: "ViewportManager_js \<Rightarrow> Point_js \<Rightarrow> Point_js" where
  "screenToWorld_js m screenPoint =
     \<lparr>jp_x = js_div (js_sub (jp_x screenPoint) (js_x (js_viewport m))) (js_zoom (js_viewport m)),
      jp_y = js_div (js_sub (jp_y screenPoint) (js_y (js_viewport m))) (js_zoom (js_viewport m))\<rparr>"

definition worldToScreen_js :: "ViewportManager_js \<Rightarrow> Point_js \<Rightarrow> Point_js" where
  "worldToScreen_js m worldPoint =
     \<lparr>jp_x = js_add (js_mul (jp_x worldPoint) (js_zoom (js_viewport m))) (js_x (js_viewport m)),
      jp_y = js_add (js_mul (jp_y worldPoint) (js_zoom (js_viewport m))) (js_y (js_viewport m))\<rparr>"

definition pan_js :: "jsnum \<Rightarrow> jsnum \<Rightarrow> ViewportManager_js \<Rightarrow> ViewportManager_js" where
  "pan_js deltaX deltaY m =
     m\<lparr>js_viewport := (js_viewport m)
          \<lparr>js_x := js_add (js_x (js_viewport m)) deltaX,
           js_y := js_add (js_y (js_viewport m)) deltaY\<rparr>\<rparr>"

text \<open>
  \<^verbatim>\<open>zoomAt\<close>, statement by statement: the world point under the old zoom, the zoom
  multiplied and clamped by \<^verbatim>\<open>Math.max(0.1, Math.min(5, zoom))\<close>, the world point
  projected under the new zoom, the translation shifted by the difference.
\<close>

definition zoomAt_js :: "Point_js \<Rightarrow> jsnum \<Rightarrow> ViewportManager_js \<Rightarrow> ViewportManager_js" where
  "zoomAt_js screenPoint zoomFactor m =
     (let worldPoint = screenToWorld_js m screenPoint;
          m1 = m\<lparr>js_viewport := (js_viewport m)
                 \<lparr>js_zoom := js_mul (js_zoom (js_viewport m)) zoomFactor\<rparr>\<rparr>;
          m2 = m1\<lparr>js_viewport := (js_viewport m1)
                 \<lparr>js_zoom := js_max (Fin (1 / 10)) (js_min (Fin 5) (js_zoom (js_viewport m1)))\<rparr>\<rparr>;
          newScreenPoint = worldToScreen_js m2 worldPoint
      in m2\<lparr>js_viewport := (js_viewport m2)
              \<lparr>js_x := js_add (js_x (js_viewport m2))
                         (js_sub (jp_x screenPoint) (jp_x newScreenPoint)),
               js_y := js_add (js_y (js_viewport m2))
                         (js_sub (jp_y screenPoint) (jp_y newScreenPoint))\<rparr>\<rparr>)"

definition setViewport_js :: "Viewport_js \<Rightarrow> ViewportManager_js \<Rightarrow> ViewportManager_js" where
  "setViewport_js v m = m\<lparr>js_viewport := v\<rparr>"

text \<open>
  \<^verbatim>\<open>focusOnBounds\<close>: its target zoom, the smaller of the two quotients, with the width
  and the height of the bounds divided by as they come, and the target viewport that it
  hands to \<^verbatim>\<open>animateViewport\<close>.
\<close>

definition targetZoom :: "ViewportManager_js \<Rightarrow> Bounds_js \<Rightarrow> jsnum \<Rightarrow> jsnum" where
  "targetZoom m bounds padding =
     js_min (js_div (js_sub (js_canvas_width m) (js_mul padding (Fin 2))) (jb_width bounds))
            (js_div (js_sub (js_canvas_height m) (js_mul padding (Fin 2))) (jb_height bounds))"

definition focusTarget :: "ViewportManager_js \<Rightarrow> Bounds_js \<Rightarrow> jsnum \<Rightarrow> Viewport_js" where
  "focusTarget m bounds padding =
     (let tz = targetZoom m bounds padding;
          targetX = js_sub (js_div (js_canvas_width m) (Fin 2))
                      (js_mul (js_add (jb_x bounds) (js_div (jb_width bounds) (Fin 2))) tz);
          targetY = js_sub (js_div (js_canvas_height m) (Fin 2))
                      (js_mul (js_add (jb_y bounds) (js_div (jb_height bounds) (Fin 2))) tz)
      in \<lparr>js_x = targetX, js_y = targetY, js_zoom = tz\<rparr>)"

text \<open>
  One run of the \<^verbatim>\<open>animate\<close> closure, \<open>elapsed\<close> milliseconds after the start: the
  viewport it writes. \<^verbatim>\<open>Date.now\<close> is outside the program, so \<open>elapsed\<close> is a
  parameter.
\<close>

definition animate ::
  "Viewport_js \<Rightarrow> Viewport_js \<Rightarrow> jsnum \<Rightarrow> jsnum \<Rightarrow> ViewportManager_js \<Rightarrow> ViewportManager_js" where
  "animate start target duration elapsed m =
     (let progress = js_min (js_div elapsed duration) (Fin 1);
          easeOut = js_sub (Fin 1) (js_cube (js_sub (Fin 1) progress))
      in m\<lparr>js_viewport :=
             \<lparr>js_x = js_add (js_x start) (js_mul (js_sub (js_x target) (js_x start)) easeOut),
              js_y = js_add (js_y start) (js_mul (js_sub (js_y target) (js_y start)) easeOut),
              js_zoom = js_add (js_zoom start)
                          (js_mul (js_sub (js_zoom target) (js_zoom start)) easeOut)\<rparr>\<rparr>)"

text \<open>Sequences of calls from outside.\<close>

datatype viewport_op =
    Pan jsnum jsnum
  | ZoomAt Point_js jsnum
  | SetViewport Viewport_js

fun apply_op :: "viewport_op \<Rightarrow> ViewportManager_js \<Rightarrow> ViewportManager_js" where
  "apply_op (Pan dx dy) m = pan_js dx dy m"
| "apply_op (ZoomAt p f) m = zoomAt_js p f m"
| "apply_op (SetViewport v) m = setViewport_js v m"

fun apply_ops :: "viewport_op list \<Rightarrow> ViewportManager_js \<Rightarrow> ViewportManager_js" where
  "apply_ops [] m = m"
| "apply_ops (c # cs) m = apply_ops cs (apply_op c m)"

text \<open>The zoom is a number between 0.1 and 5.\<close>

fun in_zoom_range :: "jsnum \<Rightarrow> bool" where
  "in_zoom_range (Fin r) = (1 / 10 \<le> r \<and> r \<le> 5)"
| "in_zoom_range _ = False"

definition zoom_in_range :: "ViewportManager_js \<Rightarrow> bool" where
  "zoom_in_range m = in_zoom_range (js_zoom (js_viewport m))"

text \<open>
  The calls that cannot take the zoom out of its range: any \<^verbatim>\<open>pan\<close>, a \<^verbatim>\<open>zoomAt\<close>
  whose factor is not \<^verbatim>\<open>NaN\<close>, a \<^verbatim>\<open>setViewport\<close> whose zoom is between 0.1 and 5.
\<close>

fun keeps_zoom :: "viewport_op \<Rightarrow> bool" where
  "keeps_zoom (Pan dx dy) = True"
| "keeps_zoom (ZoomAt p f) = (f \<noteq> NaN)"
| "keeps_zoom (SetViewport v) = in_zoom_range (js_zoom v)"

text \<open>The clamp of \<^verbatim>\<open>zoomAt\<close>, for the lemmas on it.\<close>

definition clamp_zoom :: "jsnum \<Rightarrow> jsnum" where
  "clamp_zoom z = js_max (Fin (1 / 10)) (js_min (Fin 5) z)"

lemma clamp_zoom_range:
  assumes "z \<noteq> NaN"
  shows "in_zoom_range (clamp_zoom z)"
  using assms by (cases z) (auto simp add: clamp_zoom_def js_min_def js_max_def js_lt_def)

lemma clamp_zoom_NaN: "clamp_zoom NaN = NaN"
  by (simp add: clamp_zoom_def js_min_def js_max_def)

lemma js_mul_not_NaN:
  assumes "z \<noteq> 0" and "f \<noteq> NaN"
  shows "js_mul (Fin z) f \<noteq> NaN"
  using assms js_round_cases [of "z * r" for r]
  by (cases f) (auto simp add: js_mul_def js_result_def signed_zero_def signed_inf_def js_round_def)

lemma js_zoom_zoomAt_js:
  "js_zoom (js_viewport (zoomAt_js p f m)) = clamp_zoom (js_mul (js_zoom (js_viewport m)) f)"
  by (simp add: zoomAt_js_def Let_def clamp_zoom_def)

lemma in_zoom_range_Fin: "in_zoom_range z \<Longrightarrow> \<exists>r. z = Fin r \<and> r \<noteq> 0"
  by (cases z) auto

lemma zoomAt_js_in_range:
  assumes "zoom_in_range m" and "f \<noteq> NaN"
  shows "zoom_in_range (zoomAt_js p f m)"
proof -
  from assms(1) obtain z where z: "js_zoom (js_viewport m) = Fin z" "z \<noteq> 0"
    unfolding zoom_in_range_def using in_zoom_range_Fin by blast
  have "js_mul (Fin z) f \<noteq> NaN" using z(2) assms(2) by (rule js_mul_not_NaN)
  then have "in_zoom_range (clamp_zoom (js_mul (Fin z) f))" by (rule clamp_zoom_range)
  then show ?thesis by (simp add: zoom_in_range_def js_zoom_zoomAt_js z(1))
qed

lemma zoomAt_js_NaN: "js_zoom (js_viewport (zoomAt_js p NaN m)) = NaN"
  by (simp add: js_zoom_zoomAt_js js_mul_def clamp_zoom_NaN)

lemma pan_js_in_range: "zoom_in_range (pan_js dx dy m) = zoom_in_range m"
  by (simp add: zoom_in_range_def pan_js_def)

lemma apply_op_in_range:
  "keeps_zoom c \<Longrightarrow> zoom_in_range m \<Longrightarrow> zoom_in_range (apply_op c m)"
  by (cases c)
    (simp_all add: zoomAt_js_in_range pan_js_in_range, simp add: zoom_in_range_def setViewport_js_def)

lemma apply_ops_in_range:
  "list_all keeps_zoom cs \<Longrightarrow> zoom_in_range m \<Longrightarrow> zoom_in_range (apply_ops cs m)"
  by (induction cs arbitrary: m) (simp_all add: apply_op_in_range)

text \<open>
  For a finite zoom and a finite factor the zoom that \<^verbatim>\<open>zoomAt\<close> leaves is the clamp
  of the exact product, overflow or not: the zoom of the exact model below
  (\<open>zoom_zoomAt\<close>).
\<close>

lemma zoomAt_js_zoom_finite:
  assumes "js_zoom (js_viewport m) = Fin z"
  shows "js_zoom (js_viewport (zoomAt_js p (Fin f) m)) = Fin (max (1 / 10) (min 5 (z * f)))"
  using assms max_double_ge
  by (auto simp add: js_zoom_zoomAt_js clamp_zoom_def js_mul_def js_result_def signed_zero_def
      js_min_def js_max_def js_lt_def js_round_def)

section \<open>ViewportManager in exact arithmetic\<close>

text \<open>
  The same methods on finite numbers in exact real arithmetic, with neither rounding
  nor overflow. This is the arithmetic in which the spec states the anchor property of
  \<^verbatim>\<open>zoomAt\<close> (C3), and the viewport that the navigation manager reads. A division by
  the zoom is a division of reals, so the theorems that depend on one assume that the
  zoom is not zero.
\<close>

record Viewport =
  vp_x :: real
  vp_y :: real
  zoom :: real

record Point =
  pt_x :: real
  pt_y :: real

record Bounds =
  b_x :: real
  b_y :: real
  b_width :: real
  b_height :: real

text \<open>
  The manager's state: the viewport and the two fields of the canvas that the code
  reads, \<^verbatim>\<open>canvas.width\<close> and \<^verbatim>\<open>canvas.height\<close>.
\<close>

record ViewportManager =
  viewport :: Viewport
  canvas_width :: real
  canvas_height :: real

definition initial_viewport :: Viewport where
  "initial_viewport = \<lparr>vp_x = 0, vp_y = 0, zoom = 1\<rparr>"

definition new_ViewportManager :: "real \<Rightarrow> real \<Rightarrow> ViewportManager" where
  "new_ViewportManager w h =
     \<lparr>viewport = initial_viewport, canvas_width = w, canvas_height = h\<rparr>"

definition screenToWorld :: "ViewportManager \<Rightarrow> Point \<Rightarrow> Point" where
  "screenToWorld m screenPoint =
     \<lparr>pt_x = (pt_x screenPoint - vp_x (viewport m)) / zoom (viewport m),
      pt_y = (pt_y screenPoint - vp_y (viewport m)) / zoom (viewport m)\<rparr>"

definition worldToScreen :: "ViewportManager \<Rightarrow> Point \<Rightarrow> Point" where
  "worldToScreen m worldPoint =
     \<lparr>pt_x = pt_x worldPoint * zoom (viewport m) + vp_x (viewport m),
      pt_y = pt_y worldPoint * zoom (viewport m) + vp_y (viewport m)\<rparr>"

definition pan :: "real \<Rightarrow> real \<Rightarrow> ViewportManager \<Rightarrow> ViewportManager" where
  "pan deltaX deltaY m =
     m\<lparr>viewport := (viewport m)\<lparr>vp_x := vp_x (viewport m) + deltaX,
                                  vp_y := vp_y (viewport m) + deltaY\<rparr>\<rparr>"

text \<open>
  \<^verbatim>\<open>zoomAt\<close>, statement by statement: the world point under the old zoom, the zoom
  multiplied and clamped by \<^verbatim>\<open>Math.max(0.1, Math.min(5, zoom))\<close>, the world point
  projected under the new zoom, the translation shifted by the difference.
\<close>

definition zoomAt :: "Point \<Rightarrow> real \<Rightarrow> ViewportManager \<Rightarrow> ViewportManager" where
  "zoomAt screenPoint zoomFactor m =
     (let worldPoint = screenToWorld m screenPoint;
          m1 = m\<lparr>viewport := (viewport m)\<lparr>zoom := zoom (viewport m) * zoomFactor\<rparr>\<rparr>;
          m2 = m1\<lparr>viewport := (viewport m1)\<lparr>zoom := max (1 / 10) (min 5 (zoom (viewport m1)))\<rparr>\<rparr>;
          newScreenPoint = worldToScreen m2 worldPoint
      in m2\<lparr>viewport := (viewport m2)
              \<lparr>vp_x := vp_x (viewport m2) + (pt_x screenPoint - pt_x newScreenPoint),
               vp_y := vp_y (viewport m2) + (pt_y screenPoint - pt_y newScreenPoint)\<rparr>\<rparr>)"

definition getViewportBounds :: "ViewportManager \<Rightarrow> Bounds" where
  "getViewportBounds m =
     (let topLeft = screenToWorld m \<lparr>pt_x = 0, pt_y = 0\<rparr>;
          bottomRight = screenToWorld m \<lparr>pt_x = canvas_width m, pt_y = canvas_height m\<rparr>
      in \<lparr>b_x = pt_x topLeft,
          b_y = pt_y topLeft,
          b_width = pt_x bottomRight - pt_x topLeft,
          b_height = pt_y bottomRight - pt_y topLeft\<rparr>)"

definition getViewport :: "ViewportManager \<Rightarrow> Viewport" where
  "getViewport m = viewport m"

definition setViewport :: "Viewport \<Rightarrow> ViewportManager \<Rightarrow> ViewportManager" where
  "setViewport v m = m\<lparr>viewport := v\<rparr>"

lemma zoom_zoomAt: "zoom (viewport (zoomAt p f m)) = max (1 / 10) (min 5 (zoom (viewport m) * f))"
  by (simp add: zoomAt_def Let_def)

text \<open>Two of the repository's tests of the viewport, run on the model.\<close>

lemma zoomAt_centre_test:
  "viewport (zoomAt \<lparr>pt_x = 400, pt_y = 300\<rparr> 2 (new_ViewportManager 800 600))
     = \<lparr>vp_x = - 400, vp_y = - 300, zoom = 2\<rparr>"
  by (simp add: zoomAt_def screenToWorld_def worldToScreen_def new_ViewportManager_def
      initial_viewport_def Let_def)

lemma getViewportBounds_pan_test:
  "getViewportBounds (setViewport \<lparr>vp_x = 100, vp_y = 50, zoom = 1\<rparr> (new_ViewportManager 800 600))
     = \<lparr>b_x = - 100, b_y = - 50, b_width = 800, b_height = 600\<rparr>"
  by (simp add: getViewportBounds_def screenToWorld_def setViewport_def new_ViewportManager_def Let_def)

lemma clamped_zoom_pos: "0 < max (1 / 10) (min 5 (z :: real))"
  by simp

section \<open>KeyboardNavigationManager\<close>

datatype element_type = Class | Method | Interface

record DiagramElement =
  el_id :: string
  el_x :: real
  el_y :: real
  el_width :: real
  el_height :: real
  el_type :: element_type
  connections :: "string list"

datatype nav_mode = Select | Create | Connect

datatype direction = Left | Right | Up | Down

text \<open>
  The manager's fields. \<^verbatim>\<open>elements\<close> is a JavaScript \<^verbatim>\<open>Map\<close>, which iterates in
  insertion order: an association list whose keys are distinct, \<^verbatim>\<open>Map.set\<close> being
  \<open>AList.update\<close> (a present key keeps its place, a new one goes last) and
  \<^verbatim>\<open>Map.delete\<close> being \<open>AList.delete\<close>. The elements are objects that the code
  mutates in place; each key holds its own object, so a mutation is an update at the key.
  The callbacks (\<^verbatim>\<open>onSelectionChange\<close> and the others) belong to the application and
  are left out.
\<close>

record KeyboardNavigationManager =
  selectedId :: "string option"
  mode :: nav_mode
  focusHistory :: "string list"
  elements :: "(string \<times> DiagramElement) list"
  viewport_manager :: ViewportManager

definition new_KeyboardNavigationManager :: "ViewportManager \<Rightarrow> KeyboardNavigationManager" where
  "new_KeyboardNavigationManager vm =
     \<lparr>selectedId = None, mode = Select, focusHistory = [], elements = [], viewport_manager = vm\<rparr>"

text \<open>
  The guard \<^verbatim>\<open>if (!this.state.selectedId)\<close> takes \<^verbatim>\<open>null\<close> and the empty string alike
  for no selection. \<open>selection\<close> is the id that passes the guard, if any.
\<close>

definition selection :: "KeyboardNavigationManager \<Rightarrow> string option" where
  "selection st =
     (case selectedId st of
        None \<Rightarrow> None
      | Some i \<Rightarrow> if i = [] then None else Some i)"

text \<open>\<^verbatim>\<open>Array.prototype.indexOf\<close>: the first index of the value, or -1.\<close>

fun indexOf :: "'a list \<Rightarrow> 'a \<Rightarrow> int" where
  "indexOf [] a = - 1"
| "indexOf (x # xs) a =
     (if x = a then 0
      else (let r = indexOf xs a in if r < 0 then - 1 else r + 1))"

text \<open>The remainder operator \<^verbatim>\<open>%\<close> on integers: it truncates, taking the dividend's sign.\<close>

definition js_rem :: "int \<Rightarrow> int \<Rightarrow> int" where
  "js_rem a b = sgn a * (\<bar>a\<bar> mod \<bar>b\<bar>)"

definition selectElement :: "string \<Rightarrow> KeyboardNavigationManager \<Rightarrow> KeyboardNavigationManager" where
  "selectElement i st =
     (let h1 = filter (\<lambda>j. j \<noteq> i) (focusHistory st);
          h2 = h1 @ [i];
          h3 = (if length h2 > 10 then tl h2 else h2)
      in st\<lparr>selectedId := Some i, focusHistory := h3\<rparr>)"

text \<open>
  \<^verbatim>\<open>navigateNext\<close> and \<^verbatim>\<open>navigatePrevious\<close> read the array of keys at the index they
  compute; \<open>navigateNext_index\<close> and \<open>navigatePrevious_index\<close> below show that the
  index is within the array.
\<close>

definition navigateNext :: "KeyboardNavigationManager \<Rightarrow> KeyboardNavigationManager" where
  "navigateNext st =
     (let keys = map fst (elements st) in
      if length keys = 0 then st
      else (case selection st of
              None \<Rightarrow> selectElement (keys ! 0) st
            | Some sel \<Rightarrow>
                (let currentIndex = indexOf keys sel;
                     nextIndex = js_rem (currentIndex + 1) (int (length keys))
                 in selectElement (keys ! nat nextIndex) st)))"

definition navigatePrevious :: "KeyboardNavigationManager \<Rightarrow> KeyboardNavigationManager" where
  "navigatePrevious st =
     (let keys = map fst (elements st) in
      if length keys = 0 then st
      else (case selection st of
              None \<Rightarrow> selectElement (keys ! (length keys - 1)) st
            | Some sel \<Rightarrow>
                (let currentIndex = indexOf keys sel;
                     prevIndex = js_rem (currentIndex - 1 + int (length keys)) (int (length keys))
                 in selectElement (keys ! nat prevIndex) st)))"

definition selectFirst :: "KeyboardNavigationManager \<Rightarrow> KeyboardNavigationManager" where
  "selectFirst st =
     (let keys = map fst (elements st) in
      if length keys > 0 then selectElement (keys ! 0) st else st)"

text \<open>
  \<^verbatim>\<open>isInDirection\<close> with its \<^verbatim>\<open>threshold = 30\<close>. The source takes the direction as a
  string and answers false on any other; \<^verbatim>\<open>navigateSpatial\<close>, its only caller, passes
  one of the four.
\<close>

definition isInDirection :: "DiagramElement \<Rightarrow> DiagramElement \<Rightarrow> direction \<Rightarrow> bool" where
  "isInDirection from to dir =
     (let threshold = 30 in
      case dir of
        Left \<Rightarrow>
          el_x to + el_width to < el_x from + threshold \<and>
          \<bar>el_y to + el_height to / 2 - el_y from - el_height from / 2\<bar> < el_height from / 2 + threshold
      | Right \<Rightarrow>
          el_x to > el_x from + el_width from - threshold \<and>
          \<bar>el_y to + el_height to / 2 - el_y from - el_height from / 2\<bar> < el_height from / 2 + threshold
      | Up \<Rightarrow>
          el_y to + el_height to < el_y from + threshold \<and>
          \<bar>el_x to + el_width to / 2 - el_x from - el_width from / 2\<bar> < el_width from / 2 + threshold
      | Down \<Rightarrow>
          el_y to > el_y from + el_height from - threshold \<and>
          \<bar>el_x to + el_width to / 2 - el_x from - el_width from / 2\<bar> < el_width from / 2 + threshold)"

definition calculateDistance :: "DiagramElement \<Rightarrow> DiagramElement \<Rightarrow> real" where
  "calculateDistance from to =
     (let fromCenter = \<lparr>pt_x = el_x from + el_width from / 2, pt_y = el_y from + el_height from / 2\<rparr>;
          toCenter = \<lparr>pt_x = el_x to + el_width to / 2, pt_y = el_y to + el_height to / 2\<rparr>
      in sqrt ((pt_x toCenter - pt_x fromCenter) ^ 2 + (pt_y toCenter - pt_y fromCenter) ^ 2))"

text \<open>
  The candidates that the loop of \<^verbatim>\<open>navigateSpatial\<close> collects, in the order of the map:
  id, element and distance.
\<close>

definition candidates ::
  "string \<Rightarrow> DiagramElement \<Rightarrow> direction \<Rightarrow> (string \<times> DiagramElement) list
     \<Rightarrow> (string \<times> DiagramElement \<times> real) list" where
  "candidates sel current dir els =
     map (\<lambda>(i, element). (i, element, calculateDistance current element))
       (filter (\<lambda>(i, element). i \<noteq> sel \<and> isInDirection current element dir) els)"

text \<open>
  \<^verbatim>\<open>candidates.sort((a, b) => a.distance - b.distance)\<close> is a stable sort by distance
  (\<open>sort_key\<close> is one); the first of the sorted array is selected.
\<close>

definition navigateSpatial :: "direction \<Rightarrow> KeyboardNavigationManager \<Rightarrow> KeyboardNavigationManager" where
  "navigateSpatial dir st =
     (case selection st of
        None \<Rightarrow> selectFirst st
      | Some sel \<Rightarrow>
          (case map_of (elements st) sel of
             None \<Rightarrow> st
           | Some current \<Rightarrow>
               (let cs = candidates sel current dir (elements st) in
                if length cs = 0 then st
                else selectElement (fst (hd (sort_key (\<lambda>c. snd (snd c)) cs))) st)))"

definition moveSelected :: "real \<Rightarrow> real \<Rightarrow> KeyboardNavigationManager \<Rightarrow> KeyboardNavigationManager" where
  "moveSelected deltaX deltaY st =
     (case selection st of
        None \<Rightarrow> st
      | Some sel \<Rightarrow>
          (case map_of (elements st) sel of
             None \<Rightarrow> st
           | Some element \<Rightarrow>
               st\<lparr>elements :=
                    AList.update sel
                      (element\<lparr>el_x := el_x element + deltaX, el_y := el_y element + deltaY\<rparr>)
                      (elements st)\<rparr>))"

definition getCreationPosition :: "KeyboardNavigationManager \<Rightarrow> Point" where
  "getCreationPosition st =
     (case (case selection st of None \<Rightarrow> None | Some sel \<Rightarrow> map_of (elements st) sel) of
        Some selected \<Rightarrow> \<lparr>pt_x = el_x selected + 200, pt_y = el_y selected\<rparr>
      | None \<Rightarrow>
          (let viewportBounds = getViewportBounds (viewport_manager st)
           in \<lparr>pt_x = b_x viewportBounds + b_width viewportBounds / 2 - 60,
               pt_y = b_y viewportBounds + b_height viewportBounds / 2 - 40\<rparr>))"

text \<open>
  The three creation commands. \<^verbatim>\<open>generateId\<close> builds the id from the clock and a random
  number, so the id it returns is a parameter here.
\<close>

definition createClass :: "string \<Rightarrow> KeyboardNavigationManager \<Rightarrow> KeyboardNavigationManager" where
  "createClass i st =
     (let position = getCreationPosition st;
          element = \<lparr>el_id = i, el_x = pt_x position, el_y = pt_y position,
                     el_width = 120, el_height = 80, el_type = Class, connections = []\<rparr>
      in selectElement i (st\<lparr>elements := AList.update i element (elements st)\<rparr>))"

definition createMethod :: "string \<Rightarrow> KeyboardNavigationManager \<Rightarrow> KeyboardNavigationManager" where
  "createMethod i st =
     (let position = getCreationPosition st;
          element = \<lparr>el_id = i, el_x = pt_x position, el_y = pt_y position,
                     el_width = 100, el_height = 60, el_type = Method, connections = []\<rparr>
      in selectElement i (st\<lparr>elements := AList.update i element (elements st)\<rparr>))"

definition createInterface :: "string \<Rightarrow> KeyboardNavigationManager \<Rightarrow> KeyboardNavigationManager" where
  "createInterface i st =
     (let position = getCreationPosition st;
          element = \<lparr>el_id = i, el_x = pt_x position, el_y = pt_y position,
                     el_width = 140, el_height = 70, el_type = Interface, connections = []\<rparr>
      in selectElement i (st\<lparr>elements := AList.update i element (elements st)\<rparr>))"

definition createConnected :: "string \<Rightarrow> KeyboardNavigationManager \<Rightarrow> KeyboardNavigationManager" where
  "createConnected i st =
     (case selection st of
        None \<Rightarrow> createClass i st
      | Some sel \<Rightarrow>
          (case map_of (elements st) sel of
             None \<Rightarrow> st
           | Some parent \<Rightarrow>
               (let element = \<lparr>el_id = i, el_x = el_x parent + 200, el_y = el_y parent,
                               el_width = 120, el_height = 80, el_type = Class,
                               connections = [el_id parent]\<rparr>;
                    els1 = AList.update sel (parent\<lparr>connections := connections parent @ [i]\<rparr>) (elements st)
                in selectElement i (st\<lparr>elements := AList.update i element els1\<rparr>))))"

text \<open>
  \<^verbatim>\<open>deleteSelected\<close>. One step of its \<^verbatim>\<open>forEach\<close>: the neighbour, if the map has it,
  gets its connections filtered. Then the element is deleted, \<^verbatim>\<open>navigateNext\<close> runs on
  the state that still names the deleted id as selected, and the selection is cleared
  if it is still that id.
\<close>

definition unlink :: "string \<Rightarrow> string \<Rightarrow> (string \<times> DiagramElement) list \<Rightarrow> (string \<times> DiagramElement) list" where
  "unlink sel connectedId els =
     (case map_of els connectedId of
        None \<Rightarrow> els
      | Some neighbour \<Rightarrow>
          AList.update connectedId
            (neighbour\<lparr>connections := filter (\<lambda>i. i \<noteq> sel) (connections neighbour)\<rparr>) els)"

definition deleteSelected :: "KeyboardNavigationManager \<Rightarrow> KeyboardNavigationManager" where
  "deleteSelected st =
     (case selection st of
        None \<Rightarrow> st
      | Some sel \<Rightarrow>
          (let els1 = (case map_of (elements st) sel of
                         None \<Rightarrow> elements st
                       | Some element \<Rightarrow> fold (unlink sel) (connections element) (elements st));
               st1 = st\<lparr>elements := AList.delete sel els1\<rparr>;
               st2 = navigateNext st1
           in if selectedId st2 = Some sel then st2\<lparr>selectedId := None\<rparr> else st2))"

definition setMode :: "nav_mode \<Rightarrow> KeyboardNavigationManager \<Rightarrow> KeyboardNavigationManager" where
  "setMode md st = st\<lparr>mode := md\<rparr>"

definition zoomIn :: "KeyboardNavigationManager \<Rightarrow> KeyboardNavigationManager" where
  "zoomIn st =
     (let vm = viewport_manager st;
          center = \<lparr>pt_x = canvas_width vm / 2, pt_y = canvas_height vm / 2\<rparr>
      in st\<lparr>viewport_manager := zoomAt center (12 / 10) vm\<rparr>)"

definition zoomOut :: "KeyboardNavigationManager \<Rightarrow> KeyboardNavigationManager" where
  "zoomOut st =
     (let vm = viewport_manager st;
          center = \<lparr>pt_x = canvas_width vm / 2, pt_y = canvas_height vm / 2\<rparr>
      in st\<lparr>viewport_manager := zoomAt center (8 / 10) vm\<rparr>)"

definition goHome :: "KeyboardNavigationManager \<Rightarrow> KeyboardNavigationManager" where
  "goHome st = st\<lparr>viewport_manager := setViewport \<lparr>vp_x = 0, vp_y = 0, zoom = 1\<rparr> (viewport_manager st)\<rparr>"

definition addElement :: "DiagramElement \<Rightarrow> KeyboardNavigationManager \<Rightarrow> KeyboardNavigationManager" where
  "addElement element st = st\<lparr>elements := AList.update (el_id element) element (elements st)\<rparr>"

definition removeElement :: "string \<Rightarrow> KeyboardNavigationManager \<Rightarrow> KeyboardNavigationManager" where
  "removeElement i st =
     (let st1 = st\<lparr>elements := AList.delete i (elements st)\<rparr>
      in if selectedId st1 = Some i then st1\<lparr>selectedId := None\<rparr> else st1)"

definition getSelectedId :: "KeyboardNavigationManager \<Rightarrow> string option" where
  "getSelectedId st = selectedId st"

definition getAllElements :: "KeyboardNavigationManager \<Rightarrow> DiagramElement list" where
  "getAllElements st = map snd (elements st)"

text \<open>
  The commands that reach the manager: the shortcuts, the public \<^verbatim>\<open>addElement\<close> and
  \<^verbatim>\<open>removeElement\<close>, \<^verbatim>\<open>selectElement\<close> (private, called by the tests), and a write of
  the viewport by the animation that \<^verbatim>\<open>focusOnSelected\<close> and \<^verbatim>\<open>zoomToFit\<close> start (any
  viewport, since the frames come with the clock).
\<close>

datatype command =
    NavigateNext
  | NavigatePrevious
  | NavigateSpatial direction
  | MoveSelected real real
  | CreateClass string
  | CreateMethod string
  | CreateInterface string
  | CreateConnected string
  | DeleteSelected
  | SetMode nav_mode
  | ZoomIn
  | ZoomOut
  | GoHome
  | AddElement DiagramElement
  | RemoveElement string
  | SelectElement string
  | AnimationFrame Viewport

fun exec :: "command \<Rightarrow> KeyboardNavigationManager \<Rightarrow> KeyboardNavigationManager" where
  "exec NavigateNext st = navigateNext st"
| "exec NavigatePrevious st = navigatePrevious st"
| "exec (NavigateSpatial dir) st = navigateSpatial dir st"
| "exec (MoveSelected dx dy) st = moveSelected dx dy st"
| "exec (CreateClass i) st = createClass i st"
| "exec (CreateMethod i) st = createMethod i st"
| "exec (CreateInterface i) st = createInterface i st"
| "exec (CreateConnected i) st = createConnected i st"
| "exec DeleteSelected st = deleteSelected st"
| "exec (SetMode md) st = setMode md st"
| "exec ZoomIn st = zoomIn st"
| "exec ZoomOut st = zoomOut st"
| "exec GoHome st = goHome st"
| "exec (AddElement e) st = addElement e st"
| "exec (RemoveElement i) st = removeElement i st"
| "exec (SelectElement i) st = selectElement i st"
| "exec (AnimationFrame v) st = st\<lparr>viewport_manager := setViewport v (viewport_manager st)\<rparr>"

fun run :: "command list \<Rightarrow> KeyboardNavigationManager \<Rightarrow> KeyboardNavigationManager" where
  "run [] st = st"
| "run (c # cs) st = run cs (exec c st)"

text \<open>The connections are symmetric: whoever an element lists is in the map and lists it back.\<close>

definition symmetric :: "(string \<times> DiagramElement) list \<Rightarrow> bool" where
  "symmetric els \<longleftrightarrow>
     (\<forall>(a, ea) \<in> set els. \<forall>b \<in> set (connections ea).
        case map_of els b of None \<Rightarrow> False | Some eb \<Rightarrow> a \<in> set (connections eb))"

text \<open>
  The focus history is sound when it has no duplicates, holds at most 10 ids and, if
  something is selected, ends with the selected id.
\<close>

definition history_inv :: "KeyboardNavigationManager \<Rightarrow> bool" where
  "history_inv st \<longleftrightarrow>
     distinct (focusHistory st) \<and> length (focusHistory st) \<le> 10 \<and>
     (case selectedId st of
        None \<Rightarrow> True
      | Some k \<Rightarrow> focusHistory st \<noteq> [] \<and> last (focusHistory st) = k)"

text \<open>An element with one id filtered out of its connections, as \<open>unlink\<close> leaves it.\<close>

definition dropConnection :: "string \<Rightarrow> DiagramElement \<Rightarrow> DiagramElement" where
  "dropConnection sel e = e\<lparr>connections := filter (\<lambda>i. i \<noteq> sel) (connections e)\<rparr>"

subsection \<open>Lying in a direction, in words\<close>

text \<open>
  What it is for an element \<open>e\<close> to lie in a direction from the element \<open>cur\<close>, said
  with the two axes apart. On the primary axis of the direction, the gap is how far the
  near edge of \<open>e\<close> is beyond the far edge of \<open>cur\<close>; it is negative when they overlap
  or \<open>e\<close> is behind. \<open>e\<close> lies in the direction when the gap is more than -30 and, on
  the perpendicular axis, the two centres are less than half the extent of \<open>cur\<close> plus
  30 apart. \<open>isInDirection_iff\<close> shows that this is the test of the code.
\<close>

definition centre_x :: "DiagramElement \<Rightarrow> real" where
  "centre_x e = el_x e + el_width e / 2"

definition centre_y :: "DiagramElement \<Rightarrow> real" where
  "centre_y e = el_y e + el_height e / 2"

definition primary_gap :: "direction \<Rightarrow> DiagramElement \<Rightarrow> DiagramElement \<Rightarrow> real" where
  "primary_gap dir cur e =
     (case dir of
        Left \<Rightarrow> el_x cur - (el_x e + el_width e)
      | Right \<Rightarrow> el_x e - (el_x cur + el_width cur)
      | Up \<Rightarrow> el_y cur - (el_y e + el_height e)
      | Down \<Rightarrow> el_y e - (el_y cur + el_height cur))"

definition perpendicular_offset :: "direction \<Rightarrow> DiagramElement \<Rightarrow> DiagramElement \<Rightarrow> real" where
  "perpendicular_offset dir cur e =
     (case dir of
        Left \<Rightarrow> \<bar>centre_y e - centre_y cur\<bar>
      | Right \<Rightarrow> \<bar>centre_y e - centre_y cur\<bar>
      | Up \<Rightarrow> \<bar>centre_x e - centre_x cur\<bar>
      | Down \<Rightarrow> \<bar>centre_x e - centre_x cur\<bar>)"

definition perpendicular_half_extent :: "direction \<Rightarrow> DiagramElement \<Rightarrow> real" where
  "perpendicular_half_extent dir cur =
     (case dir of
        Left \<Rightarrow> el_height cur / 2
      | Right \<Rightarrow> el_height cur / 2
      | Up \<Rightarrow> el_width cur / 2
      | Down \<Rightarrow> el_width cur / 2)"

definition lies_in_direction :: "direction \<Rightarrow> DiagramElement \<Rightarrow> DiagramElement \<Rightarrow> bool" where
  "lies_in_direction dir cur e \<longleftrightarrow>
     - 30 < primary_gap dir cur e \<and>
     perpendicular_offset dir cur e < perpendicular_half_extent dir cur + 30"

definition centre_distance :: "DiagramElement \<Rightarrow> DiagramElement \<Rightarrow> real" where
  "centre_distance cur e = sqrt ((centre_x e - centre_x cur)\<^sup>2 + (centre_y e - centre_y cur)\<^sup>2)"

subsection \<open>Example layouts\<close>

definition class_at :: "string \<Rightarrow> real \<Rightarrow> real \<Rightarrow> real \<Rightarrow> real \<Rightarrow> string list \<Rightarrow> string \<times> DiagramElement" where
  "class_at i x y w h cs =
     (i, \<lparr>el_id = i, el_x = x, el_y = y, el_width = w, el_height = h, el_type = Class, connections = cs\<rparr>)"

definition manager_with :: "string \<Rightarrow> (string \<times> DiagramElement) list \<Rightarrow> KeyboardNavigationManager" where
  "manager_with sel els =
     \<lparr>selectedId = Some sel, mode = Select, focusHistory = [sel], elements = els,
      viewport_manager = new_ViewportManager 800 600\<rparr>"

text \<open>The three elements of the navigation tests and a fourth further to the right.\<close>

definition test_layout :: "(string \<times> DiagramElement) list" where
  "test_layout =
     [class_at ''elem1'' 100 100 120 80 [], class_at ''elem2'' 250 100 120 80 [],
      class_at ''elem3'' 100 200 120 80 [], class_at ''elem4'' 400 100 120 80 []]"

text \<open>A narrow element and, overlapping its left side, a narrower one.\<close>

definition narrow_layout :: "(string \<times> DiagramElement) list" where
  "narrow_layout = [class_at ''A'' 100 100 10 80 [], class_at ''B'' 85 100 5 80 []]"

text \<open>Three elements in insertion order A, B, C, with A connected to B and to C.\<close>

definition connected_layout :: "(string \<times> DiagramElement) list" where
  "connected_layout =
     [class_at ''A'' 100 100 120 80 [''B'', ''C''], class_at ''B'' 300 100 120 80 [''A''],
      class_at ''C'' 100 300 120 80 [''A'']]"

text \<open>Two elements are added and Tab is pressed three times, as in the test of Tab.\<close>

definition tab_three_times :: "command list" where
  "tab_three_times =
     [AddElement (snd (class_at ''elem1'' 100 100 120 80 [])),
      AddElement (snd (class_at ''elem2'' 250 100 120 80 [])),
      NavigateNext, NavigateNext, NavigateNext]"

section \<open>The navigation manager: auxiliary facts\<close>

subsection \<open>Array indices\<close>

lemma indexOf_notin: "a \<notin> set xs \<Longrightarrow> indexOf xs a = - 1"
  by (induction xs) (auto simp: Let_def)

lemma indexOf_bounds: "- 1 \<le> indexOf xs a \<and> indexOf xs a < int (length xs)"
  by (induction xs) (auto simp: Let_def)

lemma indexOf_in: "a \<in> set xs \<Longrightarrow> 0 \<le> indexOf xs a \<and> xs ! nat (indexOf xs a) = a"
proof (induction xs)
  case Nil
  then show ?case by simp
next
  case (Cons x xs)
  show ?case
  proof (cases "x = a")
    case True
    then show ?thesis by simp
  next
    case False
    with Cons.prems have "a \<in> set xs" by simp
    with Cons.IH have ih: "0 \<le> indexOf xs a" "xs ! nat (indexOf xs a) = a" by simp_all
    from ih(1) have "nat (indexOf xs a + 1) = Suc (nat (indexOf xs a))" by simp
    with False ih show ?thesis by (simp add: Let_def)
  qed
qed

lemma js_rem_nonneg: "0 \<le> a \<Longrightarrow> 0 < b \<Longrightarrow> js_rem a b = a mod b"
  by (cases "a = 0") (simp_all add: js_rem_def)

lemma navigateNext_index:
  assumes "xs \<noteq> []"
  shows "0 \<le> js_rem (indexOf xs a + 1) (int (length xs)) \<and>
         nat (js_rem (indexOf xs a + 1) (int (length xs))) < length xs"
proof -
  have n: "0 < int (length xs)" using assms by simp
  have "0 \<le> indexOf xs a + 1" using indexOf_bounds [of xs a] by simp
  then have "js_rem (indexOf xs a + 1) (int (length xs)) = (indexOf xs a + 1) mod int (length xs)"
    using n by (rule js_rem_nonneg)
  moreover have "0 \<le> (indexOf xs a + 1) mod int (length xs)" using n by simp
  moreover have "(indexOf xs a + 1) mod int (length xs) < int (length xs)" using n by simp
  ultimately show ?thesis by simp
qed

lemma navigatePrevious_index:
  assumes "xs \<noteq> []"
  shows "0 \<le> js_rem (indexOf xs a - 1 + int (length xs)) (int (length xs)) \<and>
         nat (js_rem (indexOf xs a - 1 + int (length xs)) (int (length xs))) < length xs"
proof -
  have n: "0 < int (length xs)" using assms by simp
  let ?i = "indexOf xs a - 1 + int (length xs)"
  show ?thesis
  proof (cases "0 \<le> ?i")
    case True
    then have "js_rem ?i (int (length xs)) = ?i mod int (length xs)"
      using n by (rule js_rem_nonneg)
    moreover have "0 \<le> ?i mod int (length xs)" using n by simp
    moreover have "?i mod int (length xs) < int (length xs)" using n by simp
    ultimately show ?thesis by simp
  next
    case False
    with indexOf_bounds [of xs a] n have "?i = - 1" "int (length xs) = 1" by linarith+
    then show ?thesis using assms by (simp add: js_rem_def)
  qed
qed

subsection \<open>Selection and the focus history\<close>

lemma selectElement_fields [simp]:
  "selectedId (selectElement i st) = Some i"
  "elements (selectElement i st) = elements st"
  "mode (selectElement i st) = mode st"
  "viewport_manager (selectElement i st) = viewport_manager st"
  by (simp_all add: selectElement_def Let_def)

lemma focusHistory_selectElement:
  "focusHistory (selectElement i st) =
     (if length (filter (\<lambda>j. j \<noteq> i) (focusHistory st)) \<ge> 10
      then tl (filter (\<lambda>j. j \<noteq> i) (focusHistory st) @ [i])
      else filter (\<lambda>j. j \<noteq> i) (focusHistory st) @ [i])"
  by (simp add: selectElement_def Let_def)

lemma last_tl: "length xs \<ge> 2 \<Longrightarrow> last (tl xs) = last xs"
  by (cases xs) auto

lemma selectElement_inv:
  assumes "distinct (focusHistory st)" and "length (focusHistory st) \<le> 10"
  shows "history_inv (selectElement i st)"
proof -
  let ?h1 = "filter (\<lambda>j. j \<noteq> i) (focusHistory st)"
  let ?h2 = "?h1 @ [i]"
  have d: "distinct ?h2" using assms(1) by simp
  have l: "length ?h1 \<le> 10" using assms(2) length_filter_le [of _ "focusHistory st"] order_trans by blast
  show ?thesis
  proof (cases "length ?h1 \<ge> 10")
    case True
    then have len: "length ?h2 = 11" using l by simp
    have h: "focusHistory (selectElement i st) = tl ?h2"
      using True by (simp add: focusHistory_selectElement)
    have "distinct (tl ?h2)" using d by (rule distinct_tl)
    moreover have "length (tl ?h2) = 10" using len by simp
    moreover have "last (tl ?h2) = i" using len last_tl [of ?h2] by simp
    moreover have "xs \<noteq> []" if "length xs = 10" for xs :: "string list"
      using that by auto
    ultimately show ?thesis unfolding history_inv_def h by simp
  next
    case False
    then have h: "focusHistory (selectElement i st) = ?h2"
      by (simp add: focusHistory_selectElement)
    show ?thesis unfolding history_inv_def h using d False by simp
  qed
qed

lemma selectElement_history_inv:
  assumes "history_inv st"
  shows "history_inv (selectElement i st)"
proof -
  from assms have "distinct (focusHistory st)" and "length (focusHistory st) \<le> 10"
    by (simp_all add: history_inv_def)
  then show ?thesis by (rule selectElement_inv)
qed

lemma reselect_moves_to_end:
  assumes "history_inv st" and "i \<in> set (focusHistory st)"
  shows "focusHistory (selectElement i st) = removeAll i (focusHistory st) @ [i]"
proof -
  have "length (filter (\<lambda>j. j \<noteq> i) (focusHistory st)) < length (focusHistory st)"
    using assms(2) by (simp add: length_filter_less)
  then have "\<not> length (filter (\<lambda>j. j \<noteq> i) (focusHistory st)) \<ge> 10"
    using assms(1) by (simp add: history_inv_def)
  then show ?thesis
    by (simp add: focusHistory_selectElement removeAll_filter_not_eq) (metis)
qed

lemma navigateNext_cases:
  "navigateNext st = st \<or> (\<exists>k. k \<in> set (map fst (elements st)) \<and> navigateNext st = selectElement k st)"
proof (cases "elements st = []")
  case True
  then show ?thesis by (simp add: navigateNext_def)
next
  case False
  define ks where "ks = map fst (elements st)"
  have ne: "ks \<noteq> []" using False by (simp add: ks_def)
  show ?thesis
  proof (cases "selection st")
    case None
    have "ks ! 0 \<in> set ks" using ne by (intro nth_mem) simp
    moreover have "navigateNext st = selectElement (ks ! 0) st"
      using None ne by (simp add: navigateNext_def Let_def ks_def)
    ultimately show ?thesis unfolding ks_def by blast
  next
    case (Some sel)
    define n where "n = nat (js_rem (indexOf ks sel + 1) (int (length ks)))"
    have "ks ! n \<in> set ks"
      using navigateNext_index [OF ne, of sel] unfolding n_def by (intro nth_mem) simp
    moreover have "navigateNext st = selectElement (ks ! n) st"
      using Some ne by (simp add: navigateNext_def Let_def ks_def n_def)
    ultimately show ?thesis unfolding ks_def by blast
  qed
qed

lemma navigatePrevious_cases:
  "navigatePrevious st = st \<or>
   (\<exists>k. k \<in> set (map fst (elements st)) \<and> navigatePrevious st = selectElement k st)"
proof (cases "elements st = []")
  case True
  then show ?thesis by (simp add: navigatePrevious_def)
next
  case False
  define ks where "ks = map fst (elements st)"
  have ne: "ks \<noteq> []" using False by (simp add: ks_def)
  show ?thesis
  proof (cases "selection st")
    case None
    have "ks ! (length ks - 1) \<in> set ks" using ne by (intro nth_mem) simp
    moreover have "navigatePrevious st = selectElement (ks ! (length ks - 1)) st"
      using None ne by (simp add: navigatePrevious_def Let_def ks_def)
    ultimately show ?thesis unfolding ks_def by blast
  next
    case (Some sel)
    define n where "n = nat (js_rem (indexOf ks sel - 1 + int (length ks)) (int (length ks)))"
    have "ks ! n \<in> set ks"
      using navigatePrevious_index [OF ne, of sel] unfolding n_def by (intro nth_mem) simp
    moreover have "navigatePrevious st = selectElement (ks ! n) st"
      using Some ne by (simp add: navigatePrevious_def Let_def ks_def n_def)
    ultimately show ?thesis unfolding ks_def by blast
  qed
qed

lemma selectFirst_cases:
  "selectFirst st = st \<or> (\<exists>k. k \<in> set (map fst (elements st)) \<and> selectFirst st = selectElement k st)"
proof (cases "elements st = []")
  case True
  then show ?thesis by (simp add: selectFirst_def)
next
  case False
  define ks where "ks = map fst (elements st)"
  have ne: "ks \<noteq> []" using False by (simp add: ks_def)
  have "ks ! 0 \<in> set ks" using ne by (intro nth_mem) simp
  moreover have "selectFirst st = selectElement (ks ! 0) st"
    using ne by (simp add: selectFirst_def Let_def ks_def)
  ultimately show ?thesis unfolding ks_def by blast
qed

subsection \<open>Spatial navigation\<close>

lemma selection_Some: "selection st = Some sel \<longleftrightarrow> selectedId st = Some sel \<and> sel \<noteq> []"
  by (auto simp add: selection_def split: option.splits)

lemma selection_None: "selection st = None \<longleftrightarrow> selectedId st = None \<or> selectedId st = Some []"
  by (auto simp add: selection_def split: option.splits)

lemma hd_sort_key_min:
  assumes "xs \<noteq> []"
  shows "hd (sort_key f xs) \<in> set xs \<and> (\<forall>y \<in> set xs. f (hd (sort_key f xs)) \<le> f y)"
proof -
  obtain a ys where s: "sort_key f xs = a # ys"
    using assms by (cases "sort_key f xs") (auto dest: arg_cong [where f = length])
  have "set (a # ys) = set xs" using s set_sort [of f xs] by simp
  moreover have "sorted (map f (a # ys))" using s sorted_sort_key [of f xs] by simp
  ultimately show ?thesis using s by auto
qed

lemma set_candidates:
  "set (candidates sel cur dir els) =
     {(k, e, calculateDistance cur e) | k e. (k, e) \<in> set els \<and> k \<noteq> sel \<and> isInDirection cur e dir}"
  by (auto simp add: candidates_def)

lemma navigateSpatial_cases:
  assumes "selection st = Some sel" and "map_of (elements st) sel = Some cur"
  shows "(\<not> (\<exists>k e. (k, e) \<in> set (elements st) \<and> k \<noteq> sel \<and> isInDirection cur e dir) \<and>
          navigateSpatial dir st = st) \<or>
         (\<exists>k e. (k, e) \<in> set (elements st) \<and> k \<noteq> sel \<and> isInDirection cur e dir \<and>
                (\<forall>k' e'. (k', e') \<in> set (elements st) \<and> k' \<noteq> sel \<and> isInDirection cur e' dir
                   \<longrightarrow> calculateDistance cur e \<le> calculateDistance cur e') \<and>
                navigateSpatial dir st = selectElement k st)"
proof (cases "candidates sel cur dir (elements st) = []")
  case True
  then have "set (candidates sel cur dir (elements st)) = {}" by simp
  then have "\<not> (\<exists>k e. (k, e) \<in> set (elements st) \<and> k \<noteq> sel \<and> isInDirection cur e dir)"
    unfolding set_candidates by blast
  moreover have "navigateSpatial dir st = st"
    using assms True by (simp add: navigateSpatial_def)
  ultimately show ?thesis by blast
next
  case False
  define c where "c = hd (sort_key (\<lambda>c. snd (snd c)) (candidates sel cur dir (elements st)))"
  from hd_sort_key_min [OF False, of "\<lambda>c. snd (snd c)"]
  have mem: "c \<in> set (candidates sel cur dir (elements st))"
    and least: "\<forall>y \<in> set (candidates sel cur dir (elements st)). snd (snd c) \<le> snd (snd y)"
    unfolding c_def by blast+
  from mem obtain k e where c: "c = (k, e, calculateDistance cur e)"
    and ke: "(k, e) \<in> set (elements st)" "k \<noteq> sel" "isInDirection cur e dir"
    unfolding set_candidates by blast
  have "calculateDistance cur e \<le> calculateDistance cur e'"
    if "(k', e') \<in> set (elements st) \<and> k' \<noteq> sel \<and> isInDirection cur e' dir" for k' e'
  proof -
    from that have "(k', e', calculateDistance cur e') \<in> set (candidates sel cur dir (elements st))"
      unfolding set_candidates by blast
    with least c show ?thesis by fastforce
  qed
  moreover have "navigateSpatial dir st = selectElement k st"
    using assms False c by (simp add: navigateSpatial_def Let_def c_def [symmetric])
  ultimately show ?thesis using ke by blast
qed

lemma navigateSpatial_step:
  "navigateSpatial dir st = st \<or>
   (\<exists>k. k \<in> set (map fst (elements st)) \<and> navigateSpatial dir st = selectElement k st)"
proof (cases "selection st")
  case None
  then show ?thesis using selectFirst_cases [of st] by (simp add: navigateSpatial_def)
next
  case (Some sel)
  show ?thesis
  proof (cases "map_of (elements st) sel")
    case None
    with Some show ?thesis by (simp add: navigateSpatial_def)
  next
    case (Some cur)
    from navigateSpatial_cases [OF \<open>selection st = Some sel\<close> Some, of dir]
    show ?thesis
    proof
      assume "\<not> (\<exists>k e. (k, e) \<in> set (elements st) \<and> k \<noteq> sel \<and> isInDirection cur e dir) \<and>
          navigateSpatial dir st = st"
      then show ?thesis by simp
    next
      assume "\<exists>k e. (k, e) \<in> set (elements st) \<and> k \<noteq> sel \<and> isInDirection cur e dir \<and>
                (\<forall>k' e'. (k', e') \<in> set (elements st) \<and> k' \<noteq> sel \<and> isInDirection cur e' dir
                   \<longrightarrow> calculateDistance cur e \<le> calculateDistance cur e') \<and>
                navigateSpatial dir st = selectElement k st"
      then obtain k e where "(k, e) \<in> set (elements st)" "navigateSpatial dir st = selectElement k st"
        by blast
      moreover from this have "k \<in> set (map fst (elements st))" by force
      ultimately show ?thesis by blast
    qed
  qed
qed

lemma isInDirection_iff: "isInDirection cur e dir \<longleftrightarrow> lies_in_direction dir cur e"
  by (cases dir)
    (auto simp add: isInDirection_def lies_in_direction_def primary_gap_def perpendicular_offset_def
      perpendicular_half_extent_def centre_x_def centre_y_def)

lemma calculateDistance_eq: "calculateDistance cur e = centre_distance cur e"
  by (simp add: calculateDistance_def centre_distance_def centre_x_def centre_y_def)

subsection \<open>Deletion\<close>

lemma dropConnection_idem [simp]: "dropConnection sel (dropConnection sel e) = dropConnection sel e"
  by (simp add: dropConnection_def)

lemma map_of_unlink:
  "map_of (unlink sel c els) k =
     (if k = c then map_option (dropConnection sel) (map_of els c) else map_of els k)"
  by (cases "map_of els c") (simp_all add: unlink_def update_conv' dropConnection_def)

lemma keys_unlink: "map fst (unlink sel c els) = map fst els"
proof (cases "map_of els c")
  case None
  then show ?thesis by (simp add: unlink_def)
next
  case (Some n)
  then have "c \<in> set (map fst els)" by (metis map_of_eq_None_iff option.distinct(1) set_map)
  with Some show ?thesis by (simp add: unlink_def update_keys)
qed

lemma map_of_fold_unlink:
  "map_of (fold (unlink sel) cs els) k =
     (if k \<in> set cs then map_option (dropConnection sel) (map_of els k) else map_of els k)"
proof (induction cs arbitrary: els)
  case Nil
  then show ?case by simp
next
  case (Cons c cs)
  show ?case
    by (cases "map_of els c") (auto simp add: Cons.IH map_of_unlink)
qed

lemma keys_fold_unlink: "map fst (fold (unlink sel) cs els) = map fst els"
  by (induction cs arbitrary: els) (simp_all add: keys_unlink)

lemma elements_navigateNext [simp]: "elements (navigateNext st) = elements st"
  using navigateNext_cases [of st] by auto

lemma elements_deleteSelected:
  assumes "selection st = Some sel"
  shows "elements (deleteSelected st) =
           AList.delete sel
             (case map_of (elements st) sel of
                None \<Rightarrow> elements st
              | Some element \<Rightarrow> fold (unlink sel) (connections element) (elements st))"
  using assms by (simp add: deleteSelected_def Let_def)

lemma keys_deleteSelected:
  assumes "selection st = Some sel"
  shows "map fst (elements (deleteSelected st)) = removeAll sel (map fst (elements st))"
  unfolding elements_deleteSelected [OF assms]
  by (simp add: delete_keys keys_fold_unlink split: option.splits)

lemma map_of_deleteSelected:
  assumes "selection st = Some sel"
  shows "map_of (elements (deleteSelected st)) k =
           (if k = sel then None
            else case map_of (elements st) sel of
                   None \<Rightarrow> map_of (elements st) k
                 | Some element \<Rightarrow>
                     if k \<in> set (connections element)
                     then map_option (dropConnection sel) (map_of (elements st) k)
                     else map_of (elements st) k)"
  unfolding elements_deleteSelected [OF assms]
  by (simp add: delete_conv' map_of_fold_unlink split: option.splits)

lemma case_option_False:
  "(case m of None \<Rightarrow> False | Some eb \<Rightarrow> P eb) \<longleftrightarrow> (\<exists>eb. m = Some eb \<and> P eb)"
  by (cases m) auto

lemma symmetric_iff:
  assumes "distinct (map fst els)"
  shows "symmetric els \<longleftrightarrow>
     (\<forall>a ea b. map_of els a = Some ea \<and> b \<in> set (connections ea)
        \<longrightarrow> (\<exists>eb. map_of els b = Some eb \<and> a \<in> set (connections eb)))"
proof -
  have "symmetric els \<longleftrightarrow>
     (\<forall>a ea b. (a, ea) \<in> set els \<and> b \<in> set (connections ea)
        \<longrightarrow> (\<exists>eb. map_of els b = Some eb \<and> a \<in> set (connections eb)))"
    unfolding symmetric_def case_option_False by fast
  also have "\<dots> \<longleftrightarrow>
     (\<forall>a ea b. map_of els a = Some ea \<and> b \<in> set (connections ea)
        \<longrightarrow> (\<exists>eb. map_of els b = Some eb \<and> a \<in> set (connections eb)))"
    using assms by (simp only: map_of_eq_Some_iff)
  finally show ?thesis .
qed

lemma filter_neq_removeAll: "filter (\<lambda>i. i \<noteq> a) xs = removeAll a xs"
  by (induction xs) auto

lemma map_of_deleteSelected_symmetric:
  assumes d: "distinct (map fst (elements st))" and s: "symmetric (elements st)"
    and sel: "selection st = Some sel"
  shows "map_of (elements (deleteSelected st)) k =
           (if k = sel then None
            else map_option (\<lambda>x. x\<lparr>connections := removeAll sel (connections x)\<rparr>) (map_of (elements st) k))"
proof (cases "k = sel")
  case True
  then show ?thesis by (simp add: map_of_deleteSelected [OF sel])
next
  case False
  show ?thesis
  proof (cases "map_of (elements st) k")
    case None
    with False show ?thesis by (simp add: map_of_deleteSelected [OF sel] split: option.splits)
  next
    case (Some x)
    have drop: "dropConnection sel x = x\<lparr>connections := removeAll sel (connections x)\<rparr>"
      by (simp add: dropConnection_def filter_neq_removeAll)
    have keep: "x\<lparr>connections := removeAll sel (connections x)\<rparr> = x"
      if "\<not> (\<exists>e. map_of (elements st) sel = Some e \<and> k \<in> set (connections e))"
    proof -
      have "sel \<notin> set (connections x)"
      proof
        assume "sel \<in> set (connections x)"
        with s Some obtain e where "map_of (elements st) sel = Some e" "k \<in> set (connections e)"
          unfolding symmetric_iff [OF d] by blast
        with that show False by blast
      qed
      then show ?thesis by simp
    qed
    show ?thesis
    proof (cases "map_of (elements st) sel")
      case None
      with keep have "x\<lparr>connections := removeAll sel (connections x)\<rparr> = x" by simp
      with None Some False show ?thesis by (simp add: map_of_deleteSelected [OF sel])
    next
      case (Some e)
      show ?thesis
      proof (cases "k \<in> set (connections e)")
        case True
        with Some \<open>map_of (elements st) k = Some x\<close> False drop show ?thesis
          by (simp add: map_of_deleteSelected [OF sel])
      next
        case nin: False
        with keep Some have "x\<lparr>connections := removeAll sel (connections x)\<rparr> = x" by simp
        with Some \<open>map_of (elements st) k = Some x\<close> False nin show ?thesis
          by (simp add: map_of_deleteSelected [OF sel])
      qed
    qed
  qed
qed

lemma selectedId_deleteSelected:
  assumes "selection st = Some sel"
  shows "selectedId (deleteSelected st) =
           (case removeAll sel (map fst (elements st)) of [] \<Rightarrow> None | k # _ \<Rightarrow> Some k)"
proof -
  define els1 where "els1 = (case map_of (elements st) sel of
                None \<Rightarrow> elements st
              | Some element \<Rightarrow> fold (unlink sel) (connections element) (elements st))"
  define st1 where "st1 = st\<lparr>elements := AList.delete sel els1\<rparr>"
  have keys: "map fst (elements st1) = removeAll sel (map fst (elements st))"
    by (simp add: st1_def els1_def delete_keys keys_fold_unlink split: option.splits)
  have sel1: "selection st1 = Some sel" using assms by (simp add: st1_def selection_def)
  have sid1: "selectedId st1 = Some sel" using sel1 by (simp add: selection_Some)
  have del: "deleteSelected st =
      (if selectedId (navigateNext st1) = Some sel then (navigateNext st1)\<lparr>selectedId := None\<rparr>
       else navigateNext st1)"
    using assms by (simp add: deleteSelected_def Let_def st1_def els1_def)
  show ?thesis
  proof (cases "removeAll sel (map fst (elements st))")
    case Nil
    then have "navigateNext st1 = st1" using keys by (simp add: navigateNext_def)
    with del sid1 Nil show ?thesis by simp
  next
    case (Cons k ks)
    have "sel \<notin> set (removeAll sel (map fst (elements st)))" by simp
    then have "sel \<notin> set (k # ks)" unfolding Cons .
    then have "indexOf (k # ks) sel = - 1" by (rule indexOf_notin)
    then have "navigateNext st1 = selectElement k st1"
      using keys Cons sel1 by (simp add: navigateNext_def Let_def js_rem_def)
    moreover have "k \<noteq> sel" using \<open>sel \<notin> set (k # ks)\<close> by auto
    ultimately show ?thesis using del Cons by simp
  qed
qed

subsection \<open>Creation\<close>

lemma createClass_centred:
  assumes "selection st = None" and "zoom (viewport (viewport_manager st)) \<noteq> 0"
  shows "\<exists>e. map_of (elements (createClass i st)) i = Some e \<and>
           el_width e = 120 \<and> el_height e = 80 \<and>
           el_x e + el_width e / 2
             = b_x (getViewportBounds (viewport_manager st)) + b_width (getViewportBounds (viewport_manager st)) / 2 \<and>
           el_y e + el_height e / 2
             = b_y (getViewportBounds (viewport_manager st)) + b_height (getViewportBounds (viewport_manager st)) / 2 \<and>
           selectedId (createClass i st) = Some i"
  using assms by (simp add: createClass_def getCreationPosition_def Let_def update_conv')

subsection \<open>Every command keeps the focus history sound\<close>

lemma history_inv_cong:
  "focusHistory st' = focusHistory st \<Longrightarrow> selectedId st' = selectedId st \<Longrightarrow>
   history_inv st' = history_inv st"
  by (simp add: history_inv_def split: option.splits)

lemma history_inv_deselect: "history_inv st \<Longrightarrow> history_inv (st\<lparr>selectedId := None\<rparr>)"
  by (simp add: history_inv_def)

lemma history_inv_elements: "history_inv (st\<lparr>elements := els\<rparr>) = history_inv st"
  by (rule history_inv_cong) simp_all

lemma history_inv_viewport: "history_inv (st\<lparr>viewport_manager := vm\<rparr>) = history_inv st"
  by (rule history_inv_cong) simp_all

lemma navigateNext_inv: "history_inv st \<Longrightarrow> history_inv (navigateNext st)"
  using navigateNext_cases [of st] by (auto simp add: selectElement_history_inv)

lemma navigatePrevious_inv: "history_inv st \<Longrightarrow> history_inv (navigatePrevious st)"
  using navigatePrevious_cases [of st] by (auto simp add: selectElement_history_inv)

lemma navigateSpatial_inv: "history_inv st \<Longrightarrow> history_inv (navigateSpatial dir st)"
  using navigateSpatial_step [of dir st] by (auto simp add: selectElement_history_inv)

lemma moveSelected_inv: "history_inv st \<Longrightarrow> history_inv (moveSelected dx dy st)"
  by (simp add: moveSelected_def history_inv_elements split: option.splits)

lemma createClass_inv: "history_inv st \<Longrightarrow> history_inv (createClass i st)"
  by (simp add: createClass_def Let_def selectElement_history_inv history_inv_elements)

lemma createMethod_inv: "history_inv st \<Longrightarrow> history_inv (createMethod i st)"
  by (simp add: createMethod_def Let_def selectElement_history_inv history_inv_elements)

lemma createInterface_inv: "history_inv st \<Longrightarrow> history_inv (createInterface i st)"
  by (simp add: createInterface_def Let_def selectElement_history_inv history_inv_elements)

lemma createConnected_inv: "history_inv st \<Longrightarrow> history_inv (createConnected i st)"
  by (simp add: createConnected_def Let_def createClass_inv selectElement_history_inv
      history_inv_elements split: option.splits)

lemma deleteSelected_inv:
  assumes "history_inv st"
  shows "history_inv (deleteSelected st)"
proof (cases "selection st")
  case None
  with assms show ?thesis by (simp add: deleteSelected_def)
next
  case (Some sel)
  define st1 where "st1 = st\<lparr>elements := AList.delete sel
      (case map_of (elements st) sel of
         None \<Rightarrow> elements st
       | Some element \<Rightarrow> fold (unlink sel) (connections element) (elements st))\<rparr>"
  have "history_inv st1" using assms by (simp add: st1_def history_inv_elements)
  then have n: "history_inv (navigateNext st1)" by (rule navigateNext_inv)
  then have "history_inv ((navigateNext st1)\<lparr>selectedId := None\<rparr>)" by (rule history_inv_deselect)
  with n Some show ?thesis by (simp add: deleteSelected_def Let_def st1_def)
qed

lemma removeElement_inv: "history_inv st \<Longrightarrow> history_inv (removeElement i st)"
  by (simp add: removeElement_def Let_def history_inv_def split: option.splits)

lemma exec_inv: "history_inv st \<Longrightarrow> history_inv (exec c st)"
proof (cases c)
  case NavigateNext
  then show "history_inv st \<Longrightarrow> ?thesis" by (simp add: navigateNext_inv)
next
  case NavigatePrevious
  then show "history_inv st \<Longrightarrow> ?thesis" by (simp add: navigatePrevious_inv)
next
  case (NavigateSpatial dir)
  then show "history_inv st \<Longrightarrow> ?thesis" by (simp add: navigateSpatial_inv)
next
  case (MoveSelected dx dy)
  then show "history_inv st \<Longrightarrow> ?thesis" by (simp add: moveSelected_inv)
next
  case (CreateClass i)
  then show "history_inv st \<Longrightarrow> ?thesis" by (simp add: createClass_inv)
next
  case (CreateMethod i)
  then show "history_inv st \<Longrightarrow> ?thesis" by (simp add: createMethod_inv)
next
  case (CreateInterface i)
  then show "history_inv st \<Longrightarrow> ?thesis" by (simp add: createInterface_inv)
next
  case (CreateConnected i)
  then show "history_inv st \<Longrightarrow> ?thesis" by (simp add: createConnected_inv)
next
  case DeleteSelected
  then show "history_inv st \<Longrightarrow> ?thesis" by (simp add: deleteSelected_inv)
next
  case (SetMode md)
  then show "history_inv st \<Longrightarrow> ?thesis" by (simp add: setMode_def history_inv_def split: option.splits)
next
  case ZoomIn
  then show "history_inv st \<Longrightarrow> ?thesis" by (simp add: zoomIn_def Let_def history_inv_viewport)
next
  case ZoomOut
  then show "history_inv st \<Longrightarrow> ?thesis" by (simp add: zoomOut_def Let_def history_inv_viewport)
next
  case GoHome
  then show "history_inv st \<Longrightarrow> ?thesis" by (simp add: goHome_def history_inv_viewport)
next
  case (AddElement e)
  then show "history_inv st \<Longrightarrow> ?thesis" by (simp add: addElement_def history_inv_elements)
next
  case (RemoveElement i)
  then show "history_inv st \<Longrightarrow> ?thesis" by (simp add: removeElement_inv)
next
  case (SelectElement i)
  then show "history_inv st \<Longrightarrow> ?thesis" by (simp add: selectElement_history_inv)
next
  case (AnimationFrame v)
  then show "history_inv st \<Longrightarrow> ?thesis" by (simp add: history_inv_viewport)
qed

lemma run_inv: "history_inv st \<Longrightarrow> history_inv (run cs st)"
  by (induction cs arbitrary: st) (simp_all add: exec_inv)

lemma new_manager_inv: "history_inv (new_KeyboardNavigationManager vm)"
  by (simp add: history_inv_def new_KeyboardNavigationManager_def)

section \<open>Properties of the viewport\<close>

text \<open>
  C1, as the code has it. From a manager whose zoom is a number between 0.1 and 5 (the
  initial one is), every sequence of \<^verbatim>\<open>pan\<close> calls, \<^verbatim>\<open>zoomAt\<close> calls whose factor is
  not \<^verbatim>\<open>NaN\<close> and \<^verbatim>\<open>setViewport\<close> calls whose zoom is a number between 0.1 and 5 ends
  with a zoom between 0.1 and 5. The points, the deltas and the other fields may be any
  numbers, and so may the factors, infinite ones included.
\<close>

theorem C1_zoom_stays_in_range:
  assumes "zoom_in_range m" and "list_all keeps_zoom cs"
  shows "zoom_in_range (apply_ops cs m)"
  using assms by (simp add: apply_ops_in_range)

theorem C1_zoom_stays_in_range_witness:
  "zoom_in_range (new_ViewportManager_js (Fin 800) (Fin 600)) \<and>
   list_all keeps_zoom
     [ZoomAt \<lparr>jp_x = Fin 400, jp_y = Fin 300\<rparr> (Fin 2), Pan (Fin 10) NaN,
      ZoomAt \<lparr>jp_x = Fin 0, jp_y = Fin 0\<rparr> PInf,
      SetViewport \<lparr>js_x = Fin 123, js_y = Fin 456, js_zoom = Fin (5 / 2)\<rparr>,
      ZoomAt \<lparr>jp_x = NaN, jp_y = Fin 0\<rparr> (Fin (1 / 1000)),
      ZoomAt \<lparr>jp_x = Fin 0, jp_y = Fin 0\<rparr> NegZero] \<and>
   zoom_in_range (apply_ops
     [ZoomAt \<lparr>jp_x = Fin 400, jp_y = Fin 300\<rparr> (Fin 2), Pan (Fin 10) NaN,
      ZoomAt \<lparr>jp_x = Fin 0, jp_y = Fin 0\<rparr> PInf,
      SetViewport \<lparr>js_x = Fin 123, js_y = Fin 456, js_zoom = Fin (5 / 2)\<rparr>,
      ZoomAt \<lparr>jp_x = NaN, jp_y = Fin 0\<rparr> (Fin (1 / 1000)),
      ZoomAt \<lparr>jp_x = Fin 0, jp_y = Fin 0\<rparr> NegZero]
     (new_ViewportManager_js (Fin 800) (Fin 600)))"
proof -
  have a: "zoom_in_range (new_ViewportManager_js (Fin 800) (Fin 600))"
    by (simp add: zoom_in_range_def new_ViewportManager_js_def)
  have b: "list_all keeps_zoom
     [ZoomAt \<lparr>jp_x = Fin 400, jp_y = Fin 300\<rparr> (Fin 2), Pan (Fin 10) NaN,
      ZoomAt \<lparr>jp_x = Fin 0, jp_y = Fin 0\<rparr> PInf,
      SetViewport \<lparr>js_x = Fin 123, js_y = Fin 456, js_zoom = Fin (5 / 2)\<rparr>,
      ZoomAt \<lparr>jp_x = NaN, jp_y = Fin 0\<rparr> (Fin (1 / 1000)),
      ZoomAt \<lparr>jp_x = Fin 0, jp_y = Fin 0\<rparr> NegZero]"
    by simp
  from C1_zoom_stays_in_range [OF a b] a b show ?thesis by (intro conjI)
qed

text \<open>
  C1 as the spec states it fails three times: \<^verbatim>\<open>setViewport\<close> with zoom 10 leaves zoom
  10; the last frame of the animation that \<^verbatim>\<open>focusOnBounds\<close> starts on a 10 by 10 bounds
  (canvas 800 by 600, padding 50) writes its unclamped target zoom, 50; and
  \<^verbatim>\<open>zoomAt\<close> with the factor \<^verbatim>\<open>NaN\<close> leaves the zoom \<^verbatim>\<open>NaN\<close>, which the clamp lets
  through.
\<close>

theorem C1_counterexample:
  "\<not> zoom_in_range (setViewport_js \<lparr>js_x = Fin 0, js_y = Fin 0, js_zoom = Fin 10\<rparr>
        (new_ViewportManager_js (Fin 800) (Fin 600))) \<and>
   focusTarget (new_ViewportManager_js (Fin 800) (Fin 600))
       \<lparr>jb_x = Fin 0, jb_y = Fin 0, jb_width = Fin 10, jb_height = Fin 10\<rparr> (Fin 50)
     = \<lparr>js_x = Fin 150, js_y = Fin 50, js_zoom = Fin 50\<rparr> \<and>
   js_viewport (animate \<lparr>js_x = Fin 0, js_y = Fin 0, js_zoom = Fin 1\<rparr>
       \<lparr>js_x = Fin 150, js_y = Fin 50, js_zoom = Fin 50\<rparr> (Fin 600) (Fin 600)
       (new_ViewportManager_js (Fin 800) (Fin 600)))
     = \<lparr>js_x = Fin 150, js_y = Fin 50, js_zoom = Fin 50\<rparr> \<and>
   \<not> zoom_in_range (animate \<lparr>js_x = Fin 0, js_y = Fin 0, js_zoom = Fin 1\<rparr>
       \<lparr>js_x = Fin 150, js_y = Fin 50, js_zoom = Fin 50\<rparr> (Fin 600) (Fin 600)
       (new_ViewportManager_js (Fin 800) (Fin 600))) \<and>
   js_zoom (js_viewport (zoomAt_js \<lparr>jp_x = Fin 400, jp_y = Fin 300\<rparr> NaN
       (new_ViewportManager_js (Fin 800) (Fin 600)))) = NaN \<and>
   \<not> zoom_in_range (zoomAt_js \<lparr>jp_x = Fin 400, jp_y = Fin 300\<rparr> NaN
       (new_ViewportManager_js (Fin 800) (Fin 600)))"
  by (simp add: zoom_in_range_def setViewport_js_def new_ViewportManager_js_def
      focusTarget_def targetZoom_def animate_def js_cube_def Let_def zoomAt_js_NaN
      js_div_def js_mul_def js_add_def js_sub_def js_min_def js_lt_def js_result_def
      signed_zero_def js_round_small)

text \<open>
  C2, as the code has it. \<^verbatim>\<open>focusOnBounds\<close> divides by the width and the height of the
  bounds as they are passed, with no floor. When the canvas size, the padding, the width
  and the height are finite, the width and the height are not zero, and none of
  padding * 2, the two differences and the two quotients is beyond the largest double,
  the target zoom is the finite number
  min ((canvas width - padding * 2) / width, (canvas height - padding * 2) / height).
\<close>

theorem C2_target_zoom_finite:
  assumes "js_canvas_width m = Fin cw" and "js_canvas_height m = Fin ch" and "padding = Fin p"
    and "jb_width bounds = Fin w" and "jb_height bounds = Fin h"
    and "w \<noteq> 0" and "h \<noteq> 0"
    and "\<bar>p * 2\<bar> \<le> max_double"
    and "\<bar>cw - p * 2\<bar> \<le> max_double" and "\<bar>ch - p * 2\<bar> \<le> max_double"
    and "\<bar>(cw - p * 2) / w\<bar> \<le> max_double" and "\<bar>(ch - p * 2) / h\<bar> \<le> max_double"
  shows "finite_val (targetZoom m bounds padding)
           = Some (min ((cw - p * 2) / w) ((ch - p * 2) / h))"
proof -
  have p2: "finite_val (js_mul padding (Fin 2)) = Some (p * 2)"
    using assms(3,8) by (intro finite_val_mul) simp_all
  have a: "finite_val (js_sub (js_canvas_width m) (js_mul padding (Fin 2))) = Some (cw - p * 2)"
    using assms(1,9) p2 by (intro finite_val_sub) simp_all
  have b: "finite_val (js_sub (js_canvas_height m) (js_mul padding (Fin 2))) = Some (ch - p * 2)"
    using assms(2,10) p2 by (intro finite_val_sub) simp_all
  have q1: "finite_val (js_div (js_sub (js_canvas_width m) (js_mul padding (Fin 2))) (jb_width bounds))
              = Some ((cw - p * 2) / w)"
    using a assms(4,6,11) by (intro finite_val_div) simp_all
  have q2: "finite_val (js_div (js_sub (js_canvas_height m) (js_mul padding (Fin 2))) (jb_height bounds))
              = Some ((ch - p * 2) / h)"
    using b assms(5,7,12) by (intro finite_val_div) simp_all
  show ?thesis unfolding targetZoom_def using q1 q2 by (rule finite_val_min)
qed

theorem C2_target_zoom_finite_witness:
  "jb_width \<lparr>jb_x = Fin 50, jb_y = Fin 50, jb_width = Fin 220, jb_height = Fin 180\<rparr> = Fin 220 \<and>
   jb_height \<lparr>jb_x = Fin 50, jb_y = Fin 50, jb_width = Fin 220, jb_height = Fin 180\<rparr> = Fin 180 \<and>
   (220 :: real) \<noteq> 0 \<and> (180 :: real) \<noteq> 0 \<and>
   \<bar>(800 - 50 * 2) / 220\<bar> \<le> max_double \<and> \<bar>(600 - 50 * 2) / 180\<bar> \<le> max_double \<and>
   finite_val (targetZoom (new_ViewportManager_js (Fin 800) (Fin 600))
      \<lparr>jb_x = Fin 50, jb_y = Fin 50, jb_width = Fin 220, jb_height = Fin 180\<rparr> (Fin 50))
     = Some (25 / 9)"
proof -
  define m where "m = new_ViewportManager_js (Fin 800) (Fin 600)"
  define b where "b = \<lparr>jb_x = Fin 50, jb_y = Fin 50, jb_width = Fin 220, jb_height = Fin 180\<rparr>"
  have cw: "js_canvas_width m = Fin 800" and ch: "js_canvas_height m = Fin 600"
    by (simp_all add: m_def new_ViewportManager_js_def)
  have w: "jb_width b = Fin 220" and h: "jb_height b = Fin 180"
    by (simp_all add: b_def)
  have nz: "(220 :: real) \<noteq> 0" "(180 :: real) \<noteq> 0" by simp_all
  have r1: "\<bar>(50 :: real) * 2\<bar> \<le> max_double" using max_double_ge by simp
  have r2: "\<bar>(800 :: real) - 50 * 2\<bar> \<le> max_double" using max_double_ge by simp
  have r3: "\<bar>(600 :: real) - 50 * 2\<bar> \<le> max_double" using max_double_ge by simp
  have r4: "\<bar>((800 :: real) - 50 * 2) / 220\<bar> \<le> max_double" using max_double_ge by simp
  have r5: "\<bar>((600 :: real) - 50 * 2) / 180\<bar> \<le> max_double" using max_double_ge by simp
  from C2_target_zoom_finite [OF cw ch refl w h nz r1 r2 r3 r4 r5]
  have "finite_val (targetZoom m b (Fin 50)) = Some (25 / 9)" by simp
  with w h nz r4 r5 show ?thesis unfolding m_def b_def by (intro conjI)
qed

text \<open>
  C2 as the spec states it fails: no epsilon floors the bounds. On the 800 by 600 canvas
  with padding 50, a bounds of width 0 and height 0 gives the quotients 700 / 0 and
  500 / 0 and the target zoom \<^verbatim>\<open>Infinity\<close>. A width and a height that are not zero
  do not save it either: with 1e-320 for both the quotients overflow, and with a width
  that is \<^verbatim>\<open>NaN\<close> the target zoom is \<^verbatim>\<open>NaN\<close>.
\<close>

theorem C2_counterexample:
  "targetZoom (new_ViewportManager_js (Fin 800) (Fin 600))
     \<lparr>jb_x = Fin 0, jb_y = Fin 0, jb_width = Fin 0, jb_height = Fin 0\<rparr> (Fin 50) = PInf \<and>
   targetZoom (new_ViewportManager_js (Fin 800) (Fin 600))
     \<lparr>jb_x = Fin 0, jb_y = Fin 0, jb_width = Fin (1 / 10 ^ 320), jb_height = Fin (1 / 10 ^ 320)\<rparr>
     (Fin 50) = PInf \<and>
   targetZoom (new_ViewportManager_js (Fin 800) (Fin 600))
     \<lparr>jb_x = Fin 0, jb_y = Fin 0, jb_width = NaN, jb_height = Fin 100\<rparr> (Fin 50) = NaN"
  by (simp add: targetZoom_def new_ViewportManager_js_def js_div_def js_mul_def js_add_def
      js_sub_def js_min_def js_lt_def js_result_def signed_zero_def signed_inf_def
      js_round_small)
     (simp add: js_round_def max_double_def)

text \<open>
  C3. For a viewport whose zoom is not zero, \<^verbatim>\<open>zoomAt(p, f)\<close> leaves the world point
  under the screen point \<open>p\<close> where it was: \<^verbatim>\<open>screenToWorld(p)\<close> after the call equals
  \<^verbatim>\<open>screenToWorld(p)\<close> before it, for every factor, clamped or not (exact arithmetic).
\<close>

theorem C3_zoomAt_keeps_anchor:
  assumes "zoom (viewport m) \<noteq> 0"
  shows "screenToWorld (zoomAt p f m) p = screenToWorld m p"
proof -
  define z' where "z' = max (1 / 10) (min 5 (zoom (viewport m) * f))"
  have pos: "z' \<noteq> 0"
    using clamped_zoom_pos [of "zoom (viewport m) * f"] by (simp add: z'_def)
  have "(a - (v + (a - (w * z' + v)))) / z' = w" for a v w :: real
    using pos by (simp add: field_simps)
  then show ?thesis
    by (simp add: zoomAt_def screenToWorld_def worldToScreen_def Let_def z'_def)
qed

theorem C3_zoomAt_keeps_anchor_witness:
  "zoom (viewport (new_ViewportManager 800 600)) \<noteq> 0 \<and>
   screenToWorld (zoomAt \<lparr>pt_x = 200, pt_y = 150\<rparr> 10 (new_ViewportManager 800 600)) \<lparr>pt_x = 200, pt_y = 150\<rparr>
     = \<lparr>pt_x = 200, pt_y = 150\<rparr> \<and>
   zoom (viewport (zoomAt \<lparr>pt_x = 200, pt_y = 150\<rparr> 10 (new_ViewportManager 800 600))) = 5"
proof -
  have a: "zoom (viewport (new_ViewportManager 800 600)) \<noteq> 0"
    by (simp add: new_ViewportManager_def initial_viewport_def)
  have b: "screenToWorld (new_ViewportManager 800 600) \<lparr>pt_x = 200, pt_y = 150\<rparr> = \<lparr>pt_x = 200, pt_y = 150\<rparr>"
    by (simp add: screenToWorld_def new_ViewportManager_def initial_viewport_def)
  have c: "zoom (viewport (zoomAt \<lparr>pt_x = 200, pt_y = 150\<rparr> 10 (new_ViewportManager 800 600))) = 5"
    by (simp add: zoom_zoomAt new_ViewportManager_def initial_viewport_def)
  from C3_zoomAt_keeps_anchor [OF a, of "\<lparr>pt_x = 200, pt_y = 150\<rparr>" 10] a b c
  show ?thesis by simp
qed

section \<open>Properties of the navigation manager\<close>

text \<open>
  C7, as the code has it. With an element selected, \<^verbatim>\<open>navigateSpatial(direction)\<close> takes
  as candidates exactly the other elements of the store that lie in the direction in
  the sense of \<open>lies_in_direction\<close>: on the primary axis they are beyond the selected
  element's far edge or overlap it by less than 30 units (right: to.x > from.x +
  from.width - 30), and on the perpendicular axis their centre is less than half the
  selected element's extent plus 30 from its centre. If there is no candidate the state
  is unchanged; otherwise a candidate at the minimum Euclidean distance between centres
  becomes the selected id, and the elements stay as they are.
\<close>

theorem C7_navigateSpatial_nearest_candidate:
  assumes "selectedId st = Some sel" and "sel \<noteq> []" and "map_of (elements st) sel = Some cur"
  shows "if \<exists>k e. (k, e) \<in> set (elements st) \<and> k \<noteq> sel \<and> lies_in_direction dir cur e
         then \<exists>k e. (k, e) \<in> set (elements st) \<and> k \<noteq> sel \<and> lies_in_direction dir cur e \<and>
                (\<forall>k' e'. (k', e') \<in> set (elements st) \<and> k' \<noteq> sel \<and> lies_in_direction dir cur e'
                   \<longrightarrow> centre_distance cur e \<le> centre_distance cur e') \<and>
                selectedId (navigateSpatial dir st) = Some k \<and>
                elements (navigateSpatial dir st) = elements st \<and>
                navigateSpatial dir st = selectElement k st
         else navigateSpatial dir st = st"
proof -
  have s: "selection st = Some sel" using assms(1,2) by (simp add: selection_Some)
  from navigateSpatial_cases [OF s assms(3), of dir]
  show ?thesis
  proof
    assume "\<not> (\<exists>k e. (k, e) \<in> set (elements st) \<and> k \<noteq> sel \<and> isInDirection cur e dir) \<and>
      navigateSpatial dir st = st"
    then have no: "\<not> (\<exists>k e. (k, e) \<in> set (elements st) \<and> k \<noteq> sel \<and> lies_in_direction dir cur e)"
      and same: "navigateSpatial dir st = st"
      unfolding isInDirection_iff by blast+
    show ?thesis unfolding if_not_P [OF no] by (rule same)
  next
    assume "\<exists>k e. (k, e) \<in> set (elements st) \<and> k \<noteq> sel \<and> isInDirection cur e dir \<and>
      (\<forall>k' e'. (k', e') \<in> set (elements st) \<and> k' \<noteq> sel \<and> isInDirection cur e' dir
         \<longrightarrow> calculateDistance cur e \<le> calculateDistance cur e') \<and>
      navigateSpatial dir st = selectElement k st"
    then obtain k e where ke: "(k, e) \<in> set (elements st)" "k \<noteq> sel" "lies_in_direction dir cur e"
      and least: "\<forall>k' e'. (k', e') \<in> set (elements st) \<and> k' \<noteq> sel \<and> lies_in_direction dir cur e'
         \<longrightarrow> centre_distance cur e \<le> centre_distance cur e'"
      and nav: "navigateSpatial dir st = selectElement k st"
      unfolding isInDirection_iff calculateDistance_eq by blast
    have "selectedId (navigateSpatial dir st) = Some k" "elements (navigateSpatial dir st) = elements st"
      by (simp_all add: nav)
    with ke least nav have "\<exists>k e. (k, e) \<in> set (elements st) \<and> k \<noteq> sel \<and> lies_in_direction dir cur e \<and>
                (\<forall>k' e'. (k', e') \<in> set (elements st) \<and> k' \<noteq> sel \<and> lies_in_direction dir cur e'
                   \<longrightarrow> centre_distance cur e \<le> centre_distance cur e') \<and>
                selectedId (navigateSpatial dir st) = Some k \<and>
                elements (navigateSpatial dir st) = elements st \<and>
                navigateSpatial dir st = selectElement k st"
      by blast
    moreover from ke have "\<exists>k e. (k, e) \<in> set (elements st) \<and> k \<noteq> sel \<and> lies_in_direction dir cur e"
      by blast
    ultimately show ?thesis by (simp only: if_P)
  qed
qed

theorem C7_navigateSpatial_nearest_candidate_witness:
  "selectedId (manager_with ''elem1'' test_layout) = Some ''elem1'' \<and> ''elem1'' \<noteq> [] \<and>
   map_of (elements (manager_with ''elem1'' test_layout)) ''elem1''
     = Some (snd (class_at ''elem1'' 100 100 120 80 [])) \<and>
   selectedId (navigateSpatial Right (manager_with ''elem1'' test_layout)) = Some ''elem2'' \<and>
   navigateSpatial Right (manager_with ''elem1'' test_layout)
     = selectElement ''elem2'' (manager_with ''elem1'' test_layout)"
proof -
  define st where "st = manager_with ''elem1'' test_layout"
  define cur where "cur = snd (class_at ''elem1'' 100 100 120 80 [])"
  have a: "selectedId st = Some ''elem1''" by (simp add: st_def manager_with_def)
  have b: "''elem1'' \<noteq> []" by simp
  have c: "map_of (elements st) ''elem1'' = Some cur"
    by (simp add: st_def cur_def manager_with_def test_layout_def class_at_def)
  have els: "set (elements st) =
      {class_at ''elem1'' 100 100 120 80 [], class_at ''elem2'' 250 100 120 80 [],
       class_at ''elem3'' 100 200 120 80 [], class_at ''elem4'' 400 100 120 80 []}"
    by (simp add: st_def manager_with_def test_layout_def)
  have in2: "lies_in_direction Right cur (snd (class_at ''elem2'' 250 100 120 80 []))"
    by (simp add: lies_in_direction_def primary_gap_def perpendicular_offset_def
        perpendicular_half_extent_def centre_y_def cur_def class_at_def)
  have out3: "\<not> lies_in_direction Right cur (snd (class_at ''elem3'' 100 200 120 80 []))"
    by (simp add: lies_in_direction_def primary_gap_def perpendicular_offset_def
        perpendicular_half_extent_def centre_y_def cur_def class_at_def)
  have far4: "\<not> centre_distance cur (snd (class_at ''elem4'' 400 100 120 80 []))
                \<le> centre_distance cur (snd (class_at ''elem2'' 250 100 120 80 []))"
    by (simp add: centre_distance_def centre_x_def centre_y_def cur_def class_at_def)
  have two: "(''elem2'', snd (class_at ''elem2'' 250 100 120 80 [])) \<in> set (elements st)"
    by (simp add: els class_at_def)
  have ex: "\<exists>k e. (k, e) \<in> set (elements st) \<and> k \<noteq> ''elem1'' \<and> lies_in_direction Right cur e"
  proof (intro exI conjI)
    show "(''elem2'', snd (class_at ''elem2'' 250 100 120 80 [])) \<in> set (elements st)" by (rule two)
    show "''elem2'' \<noteq> ''elem1''" by simp
    show "lies_in_direction Right cur (snd (class_at ''elem2'' 250 100 120 80 []))" by (rule in2)
  qed
  from C7_navigateSpatial_nearest_candidate [OF a b c, of Right] ex
  obtain k e where ke: "(k, e) \<in> set (elements st)" "k \<noteq> ''elem1''" "lies_in_direction Right cur e"
    and least: "\<forall>k' e'. (k', e') \<in> set (elements st) \<and> k' \<noteq> ''elem1'' \<and> lies_in_direction Right cur e'
                    \<longrightarrow> centre_distance cur e \<le> centre_distance cur e'"
    and sel: "selectedId (navigateSpatial Right st) = Some k"
    and nav: "navigateSpatial Right st = selectElement k st"
    by auto
  from least two in2
  have le2: "centre_distance cur e \<le> centre_distance cur (snd (class_at ''elem2'' 250 100 120 80 []))"
    by auto
  from ke(1) have "(k, e) = class_at ''elem1'' 100 100 120 80 [] \<or> (k, e) = class_at ''elem2'' 250 100 120 80 []
      \<or> (k, e) = class_at ''elem3'' 100 200 120 80 [] \<or> (k, e) = class_at ''elem4'' 400 100 120 80 []"
    unfolding els by blast
  then have "k = ''elem2''"
  proof (elim disjE)
    assume "(k, e) = class_at ''elem1'' 100 100 120 80 []"
    with ke(2) show ?thesis by (simp add: class_at_def)
  next
    assume "(k, e) = class_at ''elem2'' 250 100 120 80 []"
    then show ?thesis by (simp add: class_at_def)
  next
    assume h: "(k, e) = class_at ''elem3'' 100 200 120 80 []"
    then have "e = snd (class_at ''elem3'' 100 200 120 80 [])" by (metis snd_conv)
    with ke(3) out3 show ?thesis by simp
  next
    assume h: "(k, e) = class_at ''elem4'' 400 100 120 80 []"
    then have "e = snd (class_at ''elem4'' 400 100 120 80 [])" by (metis snd_conv)
    with le2 far4 show ?thesis by simp
  qed
  with nav sel a b c show ?thesis unfolding st_def cur_def by simp
qed

text \<open>
  C7 as the spec states it fails: the candidates are not the elements of a half-plane.
  In the narrow layout \<open>B\<close> ends at 90, left of where \<open>A\<close> begins, at 100. It counts
  as lying to the right of \<open>A\<close> and as lying to its left, and both
  \<^verbatim>\<open>navigateSpatial("right")\<close> and \<^verbatim>\<open>navigateSpatial("left")\<close> select it.
\<close>

theorem C7_counterexample:
  "map_of (elements (manager_with ''A'' narrow_layout)) ''A''
     = Some (snd (class_at ''A'' 100 100 10 80 [])) \<and>
   map_of (elements (manager_with ''A'' narrow_layout)) ''B''
     = Some (snd (class_at ''B'' 85 100 5 80 [])) \<and>
   el_x (snd (class_at ''B'' 85 100 5 80 [])) + el_width (snd (class_at ''B'' 85 100 5 80 []))
     < el_x (snd (class_at ''A'' 100 100 10 80 [])) \<and>
   isInDirection (snd (class_at ''A'' 100 100 10 80 [])) (snd (class_at ''B'' 85 100 5 80 [])) Right \<and>
   isInDirection (snd (class_at ''A'' 100 100 10 80 [])) (snd (class_at ''B'' 85 100 5 80 [])) Left \<and>
   selectedId (navigateSpatial Right (manager_with ''A'' narrow_layout)) = Some ''B'' \<and>
   selectedId (navigateSpatial Left (manager_with ''A'' narrow_layout)) = Some ''B''"
  by (simp add: manager_with_def narrow_layout_def class_at_def navigateSpatial_def
      selection_def candidates_def isInDirection_def selectElement_def Let_def)

text \<open>
  C6, as the code has it. When the selected element is at least 30 units wide (the
  tolerance of \<^verbatim>\<open>isInDirection\<close>) and no element has a negative width, the element
  selected after \<^verbatim>\<open>navigateSpatial("right")\<close> never has its right edge strictly left of
  the left edge of the element selected before.
\<close>

theorem C6_right_never_behind:
  assumes "distinct (map fst (elements st))"
    and "selectedId st = Some sel" and "sel \<noteq> []"
    and "map_of (elements st) sel = Some cur"
    and "30 \<le> el_width cur"
    and "\<forall>(k, e) \<in> set (elements st). 0 \<le> el_width e"
    and "selectedId (navigateSpatial Right st) = Some t"
    and "map_of (elements st) t = Some tgt"
  shows "\<not> (el_x tgt + el_width tgt < el_x cur)"
proof -
  have s: "selection st = Some sel" using assms(2,3) by (simp add: selection_Some)
  from navigateSpatial_cases [OF s assms(4), of Right]
  show ?thesis
  proof
    assume "\<not> (\<exists>k e. (k, e) \<in> set (elements st) \<and> k \<noteq> sel \<and> isInDirection cur e Right) \<and>
      navigateSpatial Right st = st"
    then have "t = sel" using assms(2,7) by simp
    then have "tgt = cur" using assms(4,8) by simp
    then show ?thesis using assms(5) by simp
  next
    assume "\<exists>k e. (k, e) \<in> set (elements st) \<and> k \<noteq> sel \<and> isInDirection cur e Right \<and>
      (\<forall>k' e'. (k', e') \<in> set (elements st) \<and> k' \<noteq> sel \<and> isInDirection cur e' Right
         \<longrightarrow> calculateDistance cur e \<le> calculateDistance cur e') \<and>
      navigateSpatial Right st = selectElement k st"
    then obtain k e where ke: "(k, e) \<in> set (elements st)" "isInDirection cur e Right"
      and nav: "navigateSpatial Right st = selectElement k st"
      by blast
    from nav assms(7) have "t = k" by simp
    with ke(1) assms(1,8) have "tgt = e" by simp
    from ke(1) assms(6) have "0 \<le> el_width e" by blast
    moreover from ke(2) have "el_x cur + el_width cur - 30 < el_x e"
      by (simp add: isInDirection_def)
    ultimately show ?thesis using assms(5) \<open>tgt = e\<close> by simp
  qed
qed

theorem C6_right_never_behind_witness:
  "distinct (map fst (elements (manager_with ''elem1'' test_layout))) \<and>
   selectedId (manager_with ''elem1'' test_layout) = Some ''elem1'' \<and> ''elem1'' \<noteq> [] \<and>
   map_of (elements (manager_with ''elem1'' test_layout)) ''elem1''
     = Some (snd (class_at ''elem1'' 100 100 120 80 [])) \<and>
   30 \<le> el_width (snd (class_at ''elem1'' 100 100 120 80 [])) \<and>
   list_all (\<lambda>(k, e). 0 \<le> el_width e) (elements (manager_with ''elem1'' test_layout)) \<and>
   selectedId (navigateSpatial Right (manager_with ''elem1'' test_layout)) = Some ''elem2'' \<and>
   map_of (elements (manager_with ''elem1'' test_layout)) ''elem2''
     = Some (snd (class_at ''elem2'' 250 100 120 80 [])) \<and>
   \<not> (el_x (snd (class_at ''elem2'' 250 100 120 80 [])) + el_width (snd (class_at ''elem2'' 250 100 120 80 []))
        < el_x (snd (class_at ''elem1'' 100 100 120 80 [])))"
proof -
  define st where "st = manager_with ''elem1'' test_layout"
  have a: "distinct (map fst (elements st))"
    by (simp add: st_def manager_with_def test_layout_def class_at_def)
  have b: "selectedId st = Some ''elem1''" by (simp add: st_def manager_with_def)
  have c: "''elem1'' \<noteq> []" by simp
  have d: "map_of (elements st) ''elem1'' = Some (snd (class_at ''elem1'' 100 100 120 80 []))"
    by (simp add: st_def manager_with_def test_layout_def class_at_def)
  have e: "30 \<le> el_width (snd (class_at ''elem1'' 100 100 120 80 []))"
    by (simp add: class_at_def)
  have f: "list_all (\<lambda>(k, e). 0 \<le> el_width e) (elements st)"
    by (simp add: st_def manager_with_def test_layout_def class_at_def)
  then have f': "\<forall>(k, e) \<in> set (elements st). 0 \<le> el_width e"
    by (simp add: list_all_iff)
  have g: "selectedId (navigateSpatial Right st) = Some ''elem2''"
    by (simp add: st_def manager_with_def test_layout_def class_at_def navigateSpatial_def
        selection_def candidates_def isInDirection_def calculateDistance_def selectElement_def Let_def)
  have h: "map_of (elements st) ''elem2'' = Some (snd (class_at ''elem2'' 250 100 120 80 []))"
    by (simp add: st_def manager_with_def test_layout_def class_at_def)
  from C6_right_never_behind [OF a b c d e f' g h] a b c d e f g h
  show ?thesis unfolding st_def by blast
qed

text \<open>
  C6 as the spec states it fails for a narrow element: \<open>A\<close> at x = 100 is 10 wide, \<open>B\<close>
  at x = 85 is 5 wide, so \<open>B\<close> ends at 90, left of \<open>A\<close>. Since 85 > 100 + 10 - 30,
  \<open>B\<close> counts as lying to the right, and \<^verbatim>\<open>navigateSpatial("right")\<close> selects it.
\<close>

theorem C6_counterexample:
  "selectedId (manager_with ''A'' narrow_layout) = Some ''A'' \<and>
   map_of (elements (manager_with ''A'' narrow_layout)) ''A''
     = Some \<lparr>el_id = ''A'', el_x = 100, el_y = 100, el_width = 10, el_height = 80, el_type = Class, connections = []\<rparr> \<and>
   selectedId (navigateSpatial Right (manager_with ''A'' narrow_layout)) = Some ''B'' \<and>
   map_of (elements (manager_with ''A'' narrow_layout)) ''B''
     = Some \<lparr>el_id = ''B'', el_x = 85, el_y = 100, el_width = 5, el_height = 80, el_type = Class, connections = []\<rparr> \<and>
   (85 :: real) + 5 < 100"
  by (simp add: manager_with_def narrow_layout_def class_at_def navigateSpatial_def
      selection_def candidates_def isInDirection_def selectElement_def Let_def)

text \<open>
  C5. In a store whose connections are symmetric, deleting the selected element (an id
  that passes the guard of \<^verbatim>\<open>deleteSelected\<close>, so not the empty string) removes its id
  from the store and from the connections of every remaining element, each of which is
  otherwise as it was; no remaining element references the deleted id, and the
  connections of the remaining elements are symmetric again.
\<close>

theorem C5_delete_keeps_connections_symmetric:
  assumes "distinct (map fst (elements st))" and "symmetric (elements st)"
    and "selectedId st = Some d" and "d \<noteq> []"
  shows "d \<notin> set (map fst (elements (deleteSelected st))) \<and>
         (\<forall>(k, x) \<in> set (elements (deleteSelected st)). d \<notin> set (connections x)) \<and>
         symmetric (elements (deleteSelected st)) \<and>
         (\<forall>k x. k \<noteq> d \<and> map_of (elements st) k = Some x \<longrightarrow>
            map_of (elements (deleteSelected st)) k
              = Some (x\<lparr>connections := removeAll d (connections x)\<rparr>))"
proof -
  have sel: "selection st = Some d" using assms(3,4) by (simp add: selection_Some)
  note m = map_of_deleteSelected_symmetric [OF assms(1,2) sel]
  have keys: "map fst (elements (deleteSelected st)) = removeAll d (map fst (elements st))"
    by (rule keys_deleteSelected [OF sel])
  have dist: "distinct (map fst (elements (deleteSelected st)))"
    unfolding keys using assms(1) by (rule distinct_removeAll)
  have gone: "d \<notin> set (map fst (elements (deleteSelected st)))"
    unfolding keys by simp
  have unref: "d \<notin> set (connections x)" if "(k, x) \<in> set (elements (deleteSelected st))" for k x
  proof -
    from that dist have "map_of (elements (deleteSelected st)) k = Some x" by simp
    then obtain y where "x = y\<lparr>connections := removeAll d (connections y)\<rparr>"
      unfolding m by (auto split: if_splits)
    then show ?thesis by simp
  qed
  have sym: "symmetric (elements (deleteSelected st))"
    unfolding symmetric_iff [OF dist]
  proof (intro allI impI)
    fix a ea' b
    assume h: "map_of (elements (deleteSelected st)) a = Some ea' \<and> b \<in> set (connections ea')"
    then have "a \<noteq> d" unfolding m by (auto split: if_splits)
    from h obtain ea where ea: "map_of (elements st) a = Some ea"
      and ea': "ea' = ea\<lparr>connections := removeAll d (connections ea)\<rparr>"
      unfolding m by (auto split: if_splits)
    from h ea' have b: "b \<in> set (connections ea)" "b \<noteq> d" by auto
    from assms(2) ea b(1) obtain eb where eb: "map_of (elements st) b = Some eb" "a \<in> set (connections eb)"
      unfolding symmetric_iff [OF assms(1)] by blast
    have "map_of (elements (deleteSelected st)) b = Some (eb\<lparr>connections := removeAll d (connections eb)\<rparr>)"
      unfolding m using eb(1) b(2) by simp
    moreover have "a \<in> set (connections (eb\<lparr>connections := removeAll d (connections eb)\<rparr>))"
      using eb(2) \<open>a \<noteq> d\<close> by simp
    ultimately show "\<exists>eb. map_of (elements (deleteSelected st)) b = Some eb \<and> a \<in> set (connections eb)"
      by blast
  qed
  have rest: "map_of (elements (deleteSelected st)) k = Some (x\<lparr>connections := removeAll d (connections x)\<rparr>)"
    if "k \<noteq> d \<and> map_of (elements st) k = Some x" for k x
    unfolding m using that by simp
  from gone unref sym rest show ?thesis by blast
qed

theorem C5_delete_keeps_connections_symmetric_witness:
  "distinct (map fst (elements (manager_with ''A'' connected_layout))) \<and>
   symmetric (elements (manager_with ''A'' connected_layout)) \<and>
   selectedId (manager_with ''A'' connected_layout) = Some ''A'' \<and> ''A'' \<noteq> [] \<and>
   ''A'' \<notin> set (map fst (elements (deleteSelected (manager_with ''A'' connected_layout)))) \<and>
   symmetric (elements (deleteSelected (manager_with ''A'' connected_layout))) \<and>
   map_of (elements (deleteSelected (manager_with ''A'' connected_layout))) ''B''
     = Some (snd (class_at ''B'' 300 100 120 80 []))"
proof -
  define st where "st = manager_with ''A'' connected_layout"
  have a: "distinct (map fst (elements st))"
    by (simp add: st_def manager_with_def connected_layout_def class_at_def)
  have b: "symmetric (elements st)"
    by (simp add: st_def manager_with_def connected_layout_def class_at_def symmetric_def)
  have c: "selectedId st = Some ''A''" by (simp add: st_def manager_with_def)
  have d: "''A'' \<noteq> []" by simp
  have e: "''B'' \<noteq> ''A'' \<and> map_of (elements st) ''B'' = Some (snd (class_at ''B'' 300 100 120 80 [''A'']))"
    by (simp add: st_def manager_with_def connected_layout_def class_at_def)
  note t = C5_delete_keeps_connections_symmetric [OF a b c d]
  from t have p1: "''A'' \<notin> set (map fst (elements (deleteSelected st)))"
    by (rule conjunct1)
  from t have p3: "symmetric (elements (deleteSelected st))"
    by (elim conjE)
  from t have p4: "\<forall>k x. k \<noteq> ''A'' \<and> map_of (elements st) k = Some x \<longrightarrow>
            map_of (elements (deleteSelected st)) k
              = Some (x\<lparr>connections := removeAll ''A'' (connections x)\<rparr>)"
    by (elim conjE)
  from p4 e have p4': "map_of (elements (deleteSelected st)) ''B''
      = Some ((snd (class_at ''B'' 300 100 120 80 [''A'']))\<lparr>connections :=
          removeAll ''A'' (connections (snd (class_at ''B'' 300 100 120 80 [''A''])))\<rparr>)"
    by (elim allE [where x = "''B''"] allE [where x = "snd (class_at ''B'' 300 100 120 80 [''A''])"] impE)
  have eq: "(snd (class_at ''B'' 300 100 120 80 [''A'']))\<lparr>connections :=
          removeAll ''A'' (connections (snd (class_at ''B'' 300 100 120 80 [''A''])))\<rparr>
       = snd (class_at ''B'' 300 100 120 80 [])"
    by (simp add: class_at_def)
  have p5: "map_of (elements (deleteSelected st)) ''B''
      = Some (snd (class_at ''B'' 300 100 120 80 []))"
    using p4' unfolding eq .
  from a b c d p1 p3 p5 show ?thesis unfolding st_def by (intro conjI)
qed

text \<open>
  C4 fails on the code. \<^verbatim>\<open>deleteSelected\<close> removes the element and then calls
  \<^verbatim>\<open>navigateNext\<close>, which looks the deleted id up among the remaining keys, gets -1
  from \<^verbatim>\<open>indexOf\<close> and selects index 0: the first element of the store, not the one
  that followed the deleted element (\<open>selectedId_deleteSelected\<close>). With the elements
  A, B, C and B selected, deleting B selects A; the element after B is C.
\<close>

theorem C4_delete_middle_selects_first:
  "map fst (elements (manager_with ''B'' connected_layout)) = [''A'', ''B'', ''C''] \<and>
   selectedId (manager_with ''B'' connected_layout) = Some ''B'' \<and>
   map fst (elements (deleteSelected (manager_with ''B'' connected_layout))) = [''A'', ''C''] \<and>
   selectedId (deleteSelected (manager_with ''B'' connected_layout)) = Some ''A''"
proof -
  have s: "selection (manager_with ''B'' connected_layout) = Some ''B''"
    by (simp add: selection_def manager_with_def)
  have k: "map fst (elements (manager_with ''B'' connected_layout)) = [''A'', ''B'', ''C'']"
    by (simp add: manager_with_def connected_layout_def class_at_def)
  show ?thesis
    by (simp add: selectedId_deleteSelected [OF s] keys_deleteSelected [OF s] k)
      (simp add: manager_with_def)
qed

text \<open>
  C10. With no selection (\<^verbatim>\<open>selectedId\<close> is \<^verbatim>\<open>null\<close> or the empty string, which the
  guard takes alike) or a selected id absent from the store, \<^verbatim>\<open>moveSelected(dx, dy)\<close>
  changes nothing. Otherwise the selected element has \<open>dx\<close> and \<open>dy\<close> added to its x
  and y and keeps its id, width, height, type and connections; every other element, the
  keys of the store and their order, the selected id, the mode, the focus history and
  the viewport are unchanged.
\<close>

theorem C10_moveSelected_frame:
  "(selectedId st = None \<or> selectedId st = Some [] \<or>
      (\<exists>sel. selectedId st = Some sel \<and> map_of (elements st) sel = None)
      \<longrightarrow> moveSelected dx dy st = st) \<and>
   (\<forall>sel e. selectedId st = Some sel \<and> sel \<noteq> [] \<and> map_of (elements st) sel = Some e \<longrightarrow>
      (\<exists>e'. map_of (elements (moveSelected dx dy st)) sel = Some e' \<and>
            el_x e' = el_x e + dx \<and> el_y e' = el_y e + dy \<and>
            el_width e' = el_width e \<and> el_height e' = el_height e \<and>
            el_type e' = el_type e \<and> connections e' = connections e \<and> el_id e' = el_id e) \<and>
      (\<forall>k. k \<noteq> sel \<longrightarrow> map_of (elements (moveSelected dx dy st)) k = map_of (elements st) k) \<and>
      map fst (elements (moveSelected dx dy st)) = map fst (elements st) \<and>
      selectedId (moveSelected dx dy st) = selectedId st \<and>
      mode (moveSelected dx dy st) = mode st \<and>
      focusHistory (moveSelected dx dy st) = focusHistory st \<and>
      viewport_manager (moveSelected dx dy st) = viewport_manager st)"
proof (intro conjI allI impI)
  assume "selectedId st = None \<or> selectedId st = Some [] \<or>
      (\<exists>sel. selectedId st = Some sel \<and> map_of (elements st) sel = None)"
  then show "moveSelected dx dy st = st"
    by (auto simp add: moveSelected_def selection_def split: option.splits)
next
  fix sel e
  assume h: "selectedId st = Some sel \<and> sel \<noteq> [] \<and> map_of (elements st) sel = Some e"
  then have s: "selection st = Some sel" by (simp add: selection_Some)
  have mv: "moveSelected dx dy st =
      st\<lparr>elements := AList.update sel (e\<lparr>el_x := el_x e + dx, el_y := el_y e + dy\<rparr>) (elements st)\<rparr>"
    using h s by (simp add: moveSelected_def)
  have mem: "sel \<in> set (map fst (elements st))"
    using h by (metis map_of_eq_None_iff option.distinct(1) set_map)
  show "\<exists>e'. map_of (elements (moveSelected dx dy st)) sel = Some e' \<and>
            el_x e' = el_x e + dx \<and> el_y e' = el_y e + dy \<and>
            el_width e' = el_width e \<and> el_height e' = el_height e \<and>
            el_type e' = el_type e \<and> connections e' = connections e \<and> el_id e' = el_id e"
    by (simp add: mv update_conv')
  show "map fst (elements (moveSelected dx dy st)) = map fst (elements st)"
    using mem by (simp add: mv update_keys)
  show "selectedId (moveSelected dx dy st) = selectedId st" by (simp add: mv)
  show "mode (moveSelected dx dy st) = mode st" by (simp add: mv)
  show "focusHistory (moveSelected dx dy st) = focusHistory st" by (simp add: mv)
  show "viewport_manager (moveSelected dx dy st) = viewport_manager st" by (simp add: mv)
  fix k
  assume "k \<noteq> sel"
  then show "map_of (elements (moveSelected dx dy st)) k = map_of (elements st) k"
    by (simp add: mv update_conv')
qed

theorem C10_moveSelected_frame_witness:
  "selectedId (manager_with ''elem1'' test_layout) = Some ''elem1'' \<and> ''elem1'' \<noteq> [] \<and>
   map_of (elements (manager_with ''elem1'' test_layout)) ''elem1''
     = Some (snd (class_at ''elem1'' 100 100 120 80 [])) \<and>
   (\<exists>e'. map_of (elements (moveSelected 10 0 (manager_with ''elem1'' test_layout))) ''elem1'' = Some e' \<and>
         el_x e' = 110 \<and> el_y e' = 100 \<and> el_width e' = 120 \<and> el_height e' = 80) \<and>
   map_of (elements (moveSelected 10 0 (manager_with ''elem1'' test_layout))) ''elem2''
     = Some (snd (class_at ''elem2'' 250 100 120 80 [])) \<and>
   map fst (elements (moveSelected 10 0 (manager_with ''elem1'' test_layout)))
     = [''elem1'', ''elem2'', ''elem3'', ''elem4'']"
proof -
  define st where "st = manager_with ''elem1'' test_layout"
  define e1 where "e1 = snd (class_at ''elem1'' 100 100 120 80 [])"
  have a: "selectedId st = Some ''elem1''" by (simp add: st_def manager_with_def)
  have b: "''elem1'' \<noteq> []" by simp
  have c: "map_of (elements st) ''elem1'' = Some e1"
    by (simp add: st_def e1_def manager_with_def test_layout_def class_at_def)
  have d: "map_of (elements st) ''elem2'' = Some (snd (class_at ''elem2'' 250 100 120 80 []))"
    by (simp add: st_def manager_with_def test_layout_def class_at_def)
  have k: "map fst (elements st) = [''elem1'', ''elem2'', ''elem3'', ''elem4'']"
    by (simp add: st_def manager_with_def test_layout_def class_at_def)
  have v: "el_x e1 = 100" "el_y e1 = 100" "el_width e1 = 120" "el_height e1 = 80"
    by (simp_all add: e1_def class_at_def)
  from C10_moveSelected_frame [of st 10 0]
  have "\<forall>sel e. selectedId st = Some sel \<and> sel \<noteq> [] \<and> map_of (elements st) sel = Some e \<longrightarrow>
      (\<exists>e'. map_of (elements (moveSelected 10 0 st)) sel = Some e' \<and>
            el_x e' = el_x e + 10 \<and> el_y e' = el_y e + 0 \<and>
            el_width e' = el_width e \<and> el_height e' = el_height e \<and>
            el_type e' = el_type e \<and> connections e' = connections e \<and> el_id e' = el_id e) \<and>
      (\<forall>k. k \<noteq> sel \<longrightarrow> map_of (elements (moveSelected 10 0 st)) k = map_of (elements st) k) \<and>
      map fst (elements (moveSelected 10 0 st)) = map fst (elements st) \<and>
      selectedId (moveSelected 10 0 st) = selectedId st \<and>
      mode (moveSelected 10 0 st) = mode st \<and>
      focusHistory (moveSelected 10 0 st) = focusHistory st \<and>
      viewport_manager (moveSelected 10 0 st) = viewport_manager st"
    by (rule conjunct2)
  with a b c
  have moved: "\<exists>e'. map_of (elements (moveSelected 10 0 st)) ''elem1'' = Some e' \<and>
            el_x e' = el_x e1 + 10 \<and> el_y e' = el_y e1 + 0 \<and>
            el_width e' = el_width e1 \<and> el_height e' = el_height e1 \<and>
            el_type e' = el_type e1 \<and> connections e' = connections e1 \<and> el_id e' = el_id e1"
    and others: "\<forall>k. k \<noteq> ''elem1'' \<longrightarrow> map_of (elements (moveSelected 10 0 st)) k = map_of (elements st) k"
    and keys: "map fst (elements (moveSelected 10 0 st)) = map fst (elements st)"
    by blast+
  from moved v have m: "\<exists>e'. map_of (elements (moveSelected 10 0 st)) ''elem1'' = Some e' \<and>
         el_x e' = 110 \<and> el_y e' = 100 \<and> el_width e' = 120 \<and> el_height e' = 80"
    by auto
  from others d have o: "map_of (elements (moveSelected 10 0 st)) ''elem2''
     = Some (snd (class_at ''elem2'' 250 100 120 80 []))"
    by simp
  from a b c m o keys k show ?thesis unfolding st_def e1_def by simp
qed

text \<open>
  C8 fails on the code for two of the three creation commands. \<^verbatim>\<open>getCreationPosition\<close>
  subtracts 60 and 40 from the centre of the viewport, half the size of a class
  (\<open>createClass_centred\<close>), whatever is created. On the initial 800 by 600 viewport,
  whose world bounds are 0, 0, 800, 600 and whose centre is (400, 300), a method (100 by
  60) is put at (340, 260), so its centre is (390, 290), and an interface (140 by 70) is
  put at the same point, so its centre is (410, 295).
\<close>

theorem C8_createMethod_off_centre:
  "selectedId (new_KeyboardNavigationManager (new_ViewportManager 800 600)) = None \<and>
   getViewportBounds (new_ViewportManager 800 600) = \<lparr>b_x = 0, b_y = 0, b_width = 800, b_height = 600\<rparr> \<and>
   elements (createMethod ''method_1'' (new_KeyboardNavigationManager (new_ViewportManager 800 600)))
     = [(''method_1'', \<lparr>el_id = ''method_1'', el_x = 340, el_y = 260, el_width = 100, el_height = 60,
                        el_type = Method, connections = []\<rparr>)] \<and>
   elements (createInterface ''interface_1'' (new_KeyboardNavigationManager (new_ViewportManager 800 600)))
     = [(''interface_1'', \<lparr>el_id = ''interface_1'', el_x = 340, el_y = 260, el_width = 140, el_height = 70,
                           el_type = Interface, connections = []\<rparr>)] \<and>
   elements (createClass ''class_1'' (new_KeyboardNavigationManager (new_ViewportManager 800 600)))
     = [(''class_1'', \<lparr>el_id = ''class_1'', el_x = 340, el_y = 260, el_width = 120, el_height = 80,
                       el_type = Class, connections = []\<rparr>)]"
  by (simp add: createMethod_def createInterface_def createClass_def getCreationPosition_def
      new_KeyboardNavigationManager_def selection_def new_ViewportManager_def getViewportBounds_def
      screenToWorld_def initial_viewport_def Let_def)

text \<open>
  C9. In every state that the commands reach from a new manager, the focus history has
  no duplicates and at most 10 entries, and if an id is selected it is the last entry.
  Selecting an id that is already in the history moves it to the end.
\<close>

theorem C9_focus_history_invariant:
  "distinct (focusHistory (run cs (new_KeyboardNavigationManager vm))) \<and>
   length (focusHistory (run cs (new_KeyboardNavigationManager vm))) \<le> 10 \<and>
   (\<forall>k. selectedId (run cs (new_KeyboardNavigationManager vm)) = Some k \<longrightarrow>
        focusHistory (run cs (new_KeyboardNavigationManager vm)) \<noteq> [] \<and>
        last (focusHistory (run cs (new_KeyboardNavigationManager vm))) = k) \<and>
   (\<forall>k. k \<in> set (focusHistory (run cs (new_KeyboardNavigationManager vm))) \<longrightarrow>
        focusHistory (selectElement k (run cs (new_KeyboardNavigationManager vm)))
          = removeAll k (focusHistory (run cs (new_KeyboardNavigationManager vm))) @ [k])"
proof -
  have inv: "history_inv (run cs (new_KeyboardNavigationManager vm))"
    using new_manager_inv by (rule run_inv)
  then have "distinct (focusHistory (run cs (new_KeyboardNavigationManager vm)))"
    and "length (focusHistory (run cs (new_KeyboardNavigationManager vm))) \<le> 10"
    and "\<forall>k. selectedId (run cs (new_KeyboardNavigationManager vm)) = Some k \<longrightarrow>
        focusHistory (run cs (new_KeyboardNavigationManager vm)) \<noteq> [] \<and>
        last (focusHistory (run cs (new_KeyboardNavigationManager vm))) = k"
    by (simp_all add: history_inv_def split: option.splits)
  moreover have "\<forall>k. k \<in> set (focusHistory (run cs (new_KeyboardNavigationManager vm))) \<longrightarrow>
        focusHistory (selectElement k (run cs (new_KeyboardNavigationManager vm)))
          = removeAll k (focusHistory (run cs (new_KeyboardNavigationManager vm))) @ [k]"
    using reselect_moves_to_end [OF inv] by blast
  ultimately show ?thesis by blast
qed

theorem C9_focus_history_invariant_witness:
  "selectedId (run tab_three_times (new_KeyboardNavigationManager (new_ViewportManager 800 600)))
     = Some ''elem1'' \<and>
   focusHistory (run tab_three_times (new_KeyboardNavigationManager (new_ViewportManager 800 600)))
     = [''elem2'', ''elem1''] \<and>
   last (focusHistory (run tab_three_times (new_KeyboardNavigationManager (new_ViewportManager 800 600))))
     = ''elem1'' \<and>
   focusHistory (selectElement ''elem2''
       (run tab_three_times (new_KeyboardNavigationManager (new_ViewportManager 800 600))))
     = [''elem1'', ''elem2'']"
proof -
  define st where "st = run tab_three_times (new_KeyboardNavigationManager (new_ViewportManager 800 600))"
  have s: "selectedId st = Some ''elem1''"
    by (simp add: st_def tab_three_times_def new_KeyboardNavigationManager_def class_at_def
        addElement_def navigateNext_def selection_def selectElement_def js_rem_def Let_def)
  have h: "focusHistory st = [''elem2'', ''elem1'']"
    by (simp add: st_def tab_three_times_def new_KeyboardNavigationManager_def class_at_def
        addElement_def navigateNext_def selection_def selectElement_def js_rem_def Let_def)
  note t = C9_focus_history_invariant [of tab_three_times "new_ViewportManager 800 600", folded st_def]
  from t have "\<forall>k. selectedId st = Some k \<longrightarrow> focusHistory st \<noteq> [] \<and> last (focusHistory st) = k"
    by (elim conjE)
  with s have l: "last (focusHistory st) = ''elem1''" by blast
  from t have "\<forall>k. k \<in> set (focusHistory st) \<longrightarrow>
        focusHistory (selectElement k st) = removeAll k (focusHistory st) @ [k]"
    by (elim conjE)
  moreover have "''elem2'' \<in> set (focusHistory st)" by (simp add: h)
  ultimately have "focusHistory (selectElement ''elem2'' st) = removeAll ''elem2'' (focusHistory st) @ [''elem2'']"
    by blast
  then have r: "focusHistory (selectElement ''elem2'' st) = [''elem1'', ''elem2'']"
    by (simp add: h)
  from s h l r show ?thesis unfolding st_def by (intro conjI)
qed

end
